theory Spec2Isabelle
  imports Complex_Main "HOL-Library.Multiset" "HOL-Library.AList" "HOL-Library.Char_ord"
    "HOL-Library.List_Lexorder"
begin

section \<open>Exceptions\<close>

text \<open>
  Every failure of \<^verbatim>\<open>eda.py\<close> is a Python exception. The class of the exception is an
  \<open>exn\<close>. An exception raised by a \<^verbatim>\<open>raise\<close> statement of \<^verbatim>\<open>eda.py\<close> itself is
  \<open>Raise cls msg\<close>, with the message of the source (the formatted tail of a message is left
  out); an exception that leaves a builtin, a numpy or a sklearn call, or an \<^verbatim>\<open>assert\<close>,
  and is not caught, is \<open>Propagated cls\<close>.
\<close>

datatype exn = ValueError | TypeError | KeyError | IndexError | AssertionError

datatype pyerr = Raise exn string | Propagated exn

section \<open>Arguments and arrays\<close>

text \<open>
  An argument that the source converts with \<^verbatim>\<open>float(...)\<close>, \<^verbatim>\<open>int(...)\<close> or
  \<^verbatim>\<open>np.array(..., dtype="float64")\<close>: it is \<^verbatim>\<open>None\<close>, or the conversion gives a value,
  or the conversion raises.
\<close>

datatype 'a conv = CNone | Conv 'a | Unconv exn

text \<open>
  A float64 \<^verbatim>\<open>ndarray\<close>. A 2-D array carries its shape and its rows
  (\<open>NdArray2 nrows ncols rows\<close>); of an array of another rank only the rank is kept.
  Cells are real numbers: the source only compares and assigns cells, so no rounding
  occurs; NaN cells are not covered.
\<close>

datatype ndarray = NdArray2 nat nat "real list list" | NdArrayN nat

fun wf_ndarray :: "ndarray \<Rightarrow> bool" where
  "wf_ndarray (NdArray2 r c m) = (length m = r \<and> list_all (\<lambda>row. length row = c) m)"
| "wf_ndarray (NdArrayN k) = (k \<noteq> 2)"

datatype pyobj = ObjArray ndarray | ObjOther

type_synonym addr = nat

text \<open>The store: every reference (address) holds an object.\<close>

type_synonym heap = "addr \<Rightarrow> pyobj"

section \<open>SampleDistanceMatrix.num_correct_dist_mat\<close>

text \<open>\<^verbatim>\<open>dmat[dmat < 0] = 0\<close>\<close>

definition clamp_neg :: "real list list \<Rightarrow> real list list" where
  "clamp_neg m = map (map (\<lambda>v. if v < 0 then 0 else v)) m"

text \<open>\<^verbatim>\<open>dmat[np.diag_indices(dmat.shape[0])] = 0\<close>\<close>

definition zero_diag :: "nat \<Rightarrow> real list list \<Rightarrow> real list list" where
  "zero_diag n m = map (\<lambda>i. (m ! i)[i := 0]) [0..<n]"

text \<open>\<^verbatim>\<open>dmat[dmat > upper_bound] = upper_bound\<close>\<close>

definition clamp_ub :: "real \<Rightarrow> real list list \<Rightarrow> real list list" where
  "clamp_ub b m = map (map (\<lambda>v. if v > b then b else v)) m"

text \<open>\<^verbatim>\<open>dmat.T\<close> of an \<open>n \<times> n\<close> array: cell \<open>(i, j)\<close> of the transpose is cell \<open>(j, i)\<close>.\<close>

definition arr_T :: "nat \<Rightarrow> real list list \<Rightarrow> real list list" where
  "arr_T n m = map (\<lambda>i. map (\<lambda>j. m ! j ! i) [0..<n]) [0..<n]"

text \<open>
  \<^verbatim>\<open>dmat[np.triu_indices_from(dmat)] = src[np.triu_indices_from(dmat)]\<close>:
  \<^verbatim>\<open>np.triu_indices_from\<close> lists the cells \<open>(i, j)\<close> with \<open>i \<le> j\<close>. The right-hand side is
  an advanced index, hence a copy taken before the assignment starts.
\<close>

definition triu_assign :: "nat \<Rightarrow> real list list \<Rightarrow> real list list \<Rightarrow> real list list" where
  "triu_assign n m src =
     map (\<lambda>i. map (\<lambda>j. if i \<le> j then src ! i ! j else m ! i ! j) [0..<n]) [0..<n]"

text \<open>The last assignment of the function, on an \<open>n \<times> n\<close> array.\<close>

definition symmetrize :: "nat \<Rightarrow> real list list \<Rightarrow> real list list" where
  "symmetrize n m = triu_assign n m (arr_T n m)"

text \<open>An in-place assignment to the cells of the 2-D array at an address.\<close>

definition upd_cells :: "heap \<Rightarrow> addr \<Rightarrow> (real list list \<Rightarrow> real list list) \<Rightarrow> heap" where
  "upd_cells h a f =
     (case h a of
        ObjArray (NdArray2 r c m) \<Rightarrow> h(a := ObjArray (NdArray2 r c (f m)))
      | _ \<Rightarrow> h)"

text \<open>
  \<^verbatim>\<open>num_correct_dist_mat(dmat, upper_bound=None)\<close>. \<open>dmat\<close> is a reference into the store;
  the result is the outcome (the returned reference, or the exception) and the store
  afterwards. The two \<^verbatim>\<open>assert_allclose\<close> checks only emit warnings: they change
  neither the array nor the control flow and are left out.
\<close>

definition num_correct_dist_mat :: "heap \<Rightarrow> addr \<Rightarrow> real conv \<Rightarrow> (pyerr + addr) \<times> heap" where
  "num_correct_dist_mat h dmat upper_bound =
     (case h dmat of
        ObjArray (NdArray2 r c m) \<Rightarrow>
          if r \<noteq> c
          then (Inl (Raise ValueError ''dmat must be a 2D (n_samples, n_samples) np array''), h)
          else
            let h1 = upd_cells h dmat clamp_neg;
                h2 = upd_cells h1 dmat (zero_diag r)
            in (case upper_bound of
                  Unconv e \<Rightarrow> (Inl (Propagated e), h2)
                | CNone \<Rightarrow> (Inr dmat, upd_cells h2 dmat (symmetrize r))
                | Conv b \<Rightarrow>
                    let h3 = upd_cells h2 dmat (clamp_ub b)
                    in (Inr dmat, upd_cells h3 dmat (symmetrize r)))
      | _ \<Rightarrow> (Inl (Raise ValueError ''dmat must be a 2D (n_samples, n_samples) np array''), h))"

text \<open>
  The same call on an array that nothing else refers to (the constructor passes a fresh
  copy): only the outcome and the cells of the returned array matter.
\<close>

definition heap_of :: "pyobj \<Rightarrow> heap" where
  "heap_of obj = (\<lambda>_. obj)"

definition num_correct_fresh :: "pyobj \<Rightarrow> real conv \<Rightarrow> pyerr + pyobj" where
  "num_correct_fresh obj upper_bound =
     (case num_correct_dist_mat (heap_of obj) 0 upper_bound of
        (Inl e, _) \<Rightarrow> Inl e
      | (Inr a, h') \<Rightarrow> Inr (h' a))"

text \<open>The rows of an \<open>n \<times> n\<close> array.\<close>

definition square :: "nat \<Rightarrow> real list list \<Rightarrow> bool" where
  "square n m = (length m = n \<and> (\<forall>i<n. length (m ! i) = n))"

text \<open>The cells of an object (none for an object that is not a 2-D array).\<close>

fun cells :: "pyobj \<Rightarrow> real list list" where
  "cells (ObjArray (NdArray2 r c m)) = m"
| "cells _ = []"

section \<open>Identifiers and labels\<close>

text \<open>
  A Python value that occurs as an element of an id or label list: an \<^verbatim>\<open>int\<close>, a
  \<^verbatim>\<open>str\<close>, or a value of another type (\<open>OtherV type_name v\<close>; \<^verbatim>\<open>True\<close> is
  \<open>OtherV ''bool'' 1\<close>, since \<^verbatim>\<open>type(True) == int\<close> is false). \<^verbatim>\<open>np.array\<close> keeps such
  a list as it is when its ints fit int64 and its strings do not end in NUL; other lists
  are not covered.
\<close>

datatype pyval = IntV int | StrV string | OtherV string nat

datatype pytype = TInt | TStr | TOther string

fun type_of :: "pyval \<Rightarrow> pytype" where
  "type_of (IntV _) = TInt"
| "type_of (StrV _) = TStr"
| "type_of (OtherV t _) = TOther t"

text \<open>
  The order that \<^verbatim>\<open>sorted\<close>, \<^verbatim>\<open>np.sort\<close>, \<^verbatim>\<open>np.argsort\<close> and \<^verbatim>\<open>np.unique\<close> use: ints by
  value, strings lexicographically by character code. The source only ever sorts lists of
  one type; the order between values of different types (where Python raises) is fixed
  arbitrarily to make the order total.
\<close>

fun pyval_le :: "pyval \<Rightarrow> pyval \<Rightarrow> bool" where
  "pyval_le (IntV a) (IntV b) = (a \<le> b)"
| "pyval_le (IntV a) _ = True"
| "pyval_le (StrV a) (IntV b) = False"
| "pyval_le (StrV a) (StrV b) = (a \<le> b)"
| "pyval_le (StrV a) (OtherV t v) = True"
| "pyval_le (OtherV t v) (OtherV t' v') = (t < t' \<or> (t = t' \<and> v \<le> v'))"
| "pyval_le (OtherV t v) _ = False"

instantiation pyval :: linorder
begin

definition less_eq_pyval :: "pyval \<Rightarrow> pyval \<Rightarrow> bool" where
  "less_eq_pyval a b = pyval_le a b"

definition less_pyval :: "pyval \<Rightarrow> pyval \<Rightarrow> bool" where
  "less_pyval a b = (pyval_le a b \<and> \<not> pyval_le b a)"

instance
proof
  fix x y z :: pyval
  show "(x < y) = (x \<le> y \<and> \<not> y \<le> x)"
    by (simp add: less_eq_pyval_def less_pyval_def)
  show "x \<le> x"
    by (cases x) (simp_all add: less_eq_pyval_def)
  show "x \<le> y \<Longrightarrow> y \<le> z \<Longrightarrow> x \<le> z"
    by (cases x; cases y; cases z) (auto simp: less_eq_pyval_def)
  show "x \<le> y \<Longrightarrow> y \<le> x \<Longrightarrow> x = y"
    by (cases x; cases y) (auto simp: less_eq_pyval_def)
  show "x \<le> y \<or> y \<le> x"
    by (cases x; cases y) (auto simp: less_eq_pyval_def)
qed

end

text \<open>
  An argument that should be a list: \<^verbatim>\<open>None\<close>, a \<^verbatim>\<open>list\<close>, or an object of another type
  (a tuple, an array, ...), for which \<^verbatim>\<open>type(v) != list\<close>.
\<close>

datatype pylist = LNone | LList "pyval list" | LOther

fun the_list :: "pylist \<Rightarrow> pyval list" where
  "the_list (LList xs) = xs"
| "the_list _ = []"

text \<open>
  Modelled from the spec: \<^verbatim>\<open>utils.is_uniq_np1darr\<close> is not among the sources; the spec says
  that validation fails when the collection "contains duplicates", so the helper is true
  exactly of the arrays without a repeated value.
\<close>

definition is_uniq_np1darr :: "pyval list \<Rightarrow> bool" where
  "is_uniq_np1darr xs = distinct xs"

definition is_valid_sfid :: "pyval \<Rightarrow> bool" where
  "is_valid_sfid sfid = (type_of sfid = TStr \<or> type_of sfid = TInt)"

text \<open>
  \<^verbatim>\<open>check_is_valid_sfids(sfids)\<close>; \<^verbatim>\<open>len(set(sid_types))\<close> is the number of distinct
  element types. The array built from a list of scalars is 1-D, so the first \<^verbatim>\<open>assert\<close>
  holds; the second is a branch.
\<close>

definition check_is_valid_sfids :: "pylist \<Rightarrow> pyerr + unit" where
  "check_is_valid_sfids sfids =
     (case sfids of
        LNone \<Rightarrow> Inl (Raise ValueError ''[sf]ids cannot be None'')
      | LOther \<Rightarrow> Inl (Raise ValueError ''[sf]ids must be a homogenous list of int or str'')
      | LList xs \<Rightarrow>
          if length xs = 0 then Inl (Raise ValueError ''[sf]ids must have >= 1 values'')
          else if length (remdups (map type_of xs)) \<noteq> 1
          then Inl (Raise ValueError ''[sf]ids must be a homogenous list of int or str'')
          else if \<not> is_valid_sfid (xs ! 0)
          then Inl (Raise ValueError ''[sf]ids must be a homogenous list of int or str'')
          else if \<not> length xs > 0 then Inl (Propagated AssertionError)
          else if \<not> is_uniq_np1darr xs
          then Inl (Raise ValueError ''[sf]ids must not contain duplicated values'')
          else Inr ())"

definition is_valid_lab :: "pyval \<Rightarrow> bool" where
  "is_valid_lab lab = (type_of lab = TStr \<or> type_of lab = TInt)"

definition check_is_valid_labs :: "pylist \<Rightarrow> pyerr + unit" where
  "check_is_valid_labs labs =
     (case labs of
        LNone \<Rightarrow> Inl (Raise ValueError ''labs cannot be None'')
      | LOther \<Rightarrow> Inl (Raise ValueError ''labs must be a homogenous list of int or str'')
      | LList xs \<Rightarrow>
          if length xs = 0 then Inl (Raise ValueError ''labs cannot be empty'')
          else if length (remdups (map type_of xs)) \<noteq> 1
          then Inl (Raise ValueError ''labs must be a homogenous list of int or str'')
          else if \<not> is_valid_lab (xs ! 0)
          then Inl (Raise ValueError ''labs must be a homogenous list of int or str'')
          else if \<not> length xs > 0 then Inl (Propagated AssertionError)
          else Inr ())"

section \<open>The classes and their constructors\<close>

text \<open>
  The three classes extend one another, as the records do. A field \<^verbatim>\<open>self._x\<close> is
  \<open>self_x\<close>. \<^verbatim>\<open>_tsne_lut\<close> starts empty and is not used by the operations below; it is
  left out. A dict is an association list in insertion order, read with \<open>map_of\<close> and
  written with \<open>AList.update\<close>.
\<close>

text \<open>
  The \<^verbatim>\<open>metric\<close> argument: \<^verbatim>\<open>None\<close>, a \<^verbatim>\<open>str\<close>, or an object of another type.
\<close>

datatype pymetric = MNone | MStr string | MOther

record SampleFeatureMatrix =
  self_x :: ndarray
  self_sids :: "pyval list"
  self_fids :: "pyval list"

record SampleDistanceMatrix = SampleFeatureMatrix +
  self_d :: pyobj
  self_metric :: pymetric

record SingleLabelClassifiedSamples = SampleDistanceMatrix +
  self_labs :: "pyval list"
  self_sid_lut :: "(pyval \<times> pyval list) list"
  self_lab_lut :: "(pyval \<times> pyval) list"

text \<open>\<^verbatim>\<open>list(range(n))\<close>\<close>

definition range_ids :: "nat \<Rightarrow> pyval list" where
  "range_ids n = map (\<lambda>i. IntV (int i)) [0..<n]"

text \<open>
  The \<^verbatim>\<open>sids\<close> and \<^verbatim>\<open>fids\<close> arguments of \<^verbatim>\<open>SampleFeatureMatrix.__init__\<close>, checked against
  the length \<open>n\<close> of their axis.
\<close>

definition init_ids :: "pylist \<Rightarrow> nat \<Rightarrow> pyerr + pyval list" where
  "init_ids ids n =
     (case ids of
        LNone \<Rightarrow> Inr (range_ids n)
      | _ \<Rightarrow>
         (case check_is_valid_sfids ids of
            Inl e \<Rightarrow> Inl e
          | Inr _ \<Rightarrow>
              if length (the_list ids) \<noteq> n
              then Inl (Raise ValueError ''x has shape (n_samples, n_features)'')
              else Inr (the_list ids)))"

text \<open>
  \<^verbatim>\<open>SampleFeatureMatrix.__init__(x, sids, fids)\<close>. The argument \<open>x\<close> is \<^verbatim>\<open>None\<close>, or what
  \<^verbatim>\<open>np.array(x, dtype="float64")\<close> gives; only a \<^verbatim>\<open>ValueError\<close> of the conversion is caught
  and raised again.
\<close>

definition SampleFeatureMatrix_init ::
  "ndarray conv \<Rightarrow> pylist \<Rightarrow> pylist \<Rightarrow> pyerr + SampleFeatureMatrix" where
  "SampleFeatureMatrix_init x sids fids =
     (case x of
        CNone \<Rightarrow> Inl (Raise ValueError ''x cannot be None'')
      | Unconv e \<Rightarrow>
          if e = ValueError then Inl (Raise ValueError ''Features must be float'')
          else Inl (Propagated e)
      | Conv (NdArrayN k) \<Rightarrow> Inl (Raise ValueError ''x has shape (n_samples, n_features)'')
      | Conv (NdArray2 r c m) \<Rightarrow>
          if r * c = 0 then Inl (Raise ValueError ''size of x cannot be 0'')
          else
            (case init_ids sids r of
               Inl e \<Rightarrow> Inl e
             | Inr sids' \<Rightarrow>
                (case init_ids fids c of
                   Inl e \<Rightarrow> Inl e
                 | Inr fids' \<Rightarrow>
                     Inr \<lparr>self_x = NdArray2 r c m, self_sids = sids', self_fids = fids'\<rparr>)))"

text \<open>
  \<^verbatim>\<open>sklearn.metrics.pairwise.pairwise_distances(x, metric=..., n_jobs=...)\<close> is an external
  routine: a parameter \<open>pd\<close> of the constructors, which returns an object or raises. It
  is called on the argument \<open>x\<close>, which the parent constructor has accepted and keeps as
  \<open>self_x\<close>.
\<close>

type_synonym pairwise = "ndarray \<Rightarrow> string \<Rightarrow> int \<Rightarrow> exn + pyobj"

text \<open>\<^verbatim>\<open>x.shape[0]\<close> of a 2-D array\<close>

fun shape0 :: "ndarray \<Rightarrow> nat" where
  "shape0 (NdArray2 r c m) = r"
| "shape0 (NdArrayN k) = 0"

text \<open>
  An example of such a routine, for the concrete cases below: all distances are 0.
\<close>

definition pd_zero :: pairwise where
  "pd_zero x metric n_jobs =
     Inr (ObjArray (NdArray2 (shape0 x) (shape0 x)
            (replicate (shape0 x) (replicate (shape0 x) 0))))"

text \<open>
  The distance matrix before correction: computed by \<open>pd\<close> when \<open>d\<close> is \<^verbatim>\<open>None\<close>,
  else \<^verbatim>\<open>np.array(d, dtype="float64")\<close> with its shape checked against the \<open>n\<close> samples.
\<close>

definition init_d ::
  "pairwise \<Rightarrow> ndarray \<Rightarrow> nat \<Rightarrow> ndarray conv \<Rightarrow> pymetric \<Rightarrow> int conv \<Rightarrow> pyerr + pyobj" where
  "init_d pd x n d metric nprocs =
     (case d of
        CNone \<Rightarrow>
          (case metric of
             MNone \<Rightarrow> Inl (Raise ValueError ''If d is None, metric must be provided.'')
           | MOther \<Rightarrow> Inl (Raise ValueError ''metric must be string'')
           | MStr s \<Rightarrow>
              (case nprocs of
                 Unconv e \<Rightarrow> Inl (Propagated e)
               | CNone \<Rightarrow> (case pd x s 1 of Inl e \<Rightarrow> Inl (Propagated e) | Inr v \<Rightarrow> Inr v)
               | Conv k \<Rightarrow>
                  (case pd x s (max k 1) of Inl e \<Rightarrow> Inl (Propagated e) | Inr v \<Rightarrow> Inr v)))
      | Unconv e \<Rightarrow>
          if e = ValueError then Inl (Raise ValueError ''d must be float'')
          else Inl (Propagated e)
      | Conv (NdArrayN k) \<Rightarrow> Inl (Raise ValueError ''d should have shape (n_samples, n_samples)'')
      | Conv (NdArray2 r c m) \<Rightarrow>
          if r \<noteq> c \<or> r \<noteq> n
          then Inl (Raise ValueError ''d should have shape (n_samples, n_samples)'')
          else Inr (ObjArray (NdArray2 r c m)))"

text \<open>\<^verbatim>\<open>SampleDistanceMatrix.__init__(x, d, metric, sids, fids, nprocs)\<close>\<close>

definition SampleDistanceMatrix_init ::
  "pairwise \<Rightarrow> ndarray conv \<Rightarrow> ndarray conv \<Rightarrow> pymetric \<Rightarrow> pylist \<Rightarrow> pylist \<Rightarrow> int conv
     \<Rightarrow> pyerr + SampleDistanceMatrix" where
  "SampleDistanceMatrix_init pd x d metric sids fids nprocs =
     (case SampleFeatureMatrix_init x sids fids of
        Inl e \<Rightarrow> Inl e
      | Inr self \<Rightarrow>
         (case init_d pd (self_x self) (shape0 (self_x self)) d metric nprocs of
            Inl e \<Rightarrow> Inl e
          | Inr d0 \<Rightarrow>
             (case num_correct_fresh d0 CNone of
                Inl e \<Rightarrow> Inl e
              | Inr d1 \<Rightarrow>
                  Inr \<lparr>self_x = self_x self, self_sids = self_sids self,
                       self_fids = self_fids self, self_d = d1,
                       self_metric = metric\<rparr>)))"

text \<open>\<^verbatim>\<open>np.unique\<close>: the distinct values, sorted.\<close>

definition np_unique :: "pyval list \<Rightarrow> pyval list" where
  "np_unique xs = sort (remdups xs)"

text \<open>\<^verbatim>\<open>self._sids[labs == uniq_lab]\<close>, on arrays of one length.\<close>

definition sids_with_lab :: "pyval list \<Rightarrow> pyval list \<Rightarrow> pyval \<Rightarrow> pyval list" where
  "sids_with_lab sids labs uniq_lab = map fst (filter (\<lambda>(s, l). l = uniq_lab) (zip sids labs))"

text \<open>
  \<^verbatim>\<open>SingleLabelClassifiedSamples.__init__(x, labs, sids, fids, d, metric="correlation", nprocs)\<close>.
  The argument \<open>metric\<close> is \<open>None\<close> when the caller leaves it out, and the default
  applies. Both loops that fill the lookup tables are folds.
\<close>

definition SingleLabelClassifiedSamples_init ::
  "pairwise \<Rightarrow> ndarray conv \<Rightarrow> pylist \<Rightarrow> pylist \<Rightarrow> pylist \<Rightarrow> ndarray conv \<Rightarrow> pymetric option
     \<Rightarrow> int conv \<Rightarrow> pyerr + SingleLabelClassifiedSamples" where
  "SingleLabelClassifiedSamples_init pd x labs sids fids d metric nprocs =
     (case SampleDistanceMatrix_init pd x d
             (case metric of None \<Rightarrow> MStr ''correlation'' | Some m \<Rightarrow> m) sids fids nprocs of
        Inl e \<Rightarrow> Inl e
      | Inr self \<Rightarrow>
         (case check_is_valid_labs labs of
            Inl e \<Rightarrow> Inl e
          | Inr _ \<Rightarrow>
             (let labs' = the_list labs; sids' = self_sids self in
              if length sids' \<noteq> length labs'
              then Inl (Raise ValueError ''sids must have the same length as labs'')
              else
                Inr \<lparr>self_x = self_x self, self_sids = sids', self_fids = self_fids self,
                     self_d = self_d self, self_metric = self_metric self,
                     self_labs = labs',
                     self_sid_lut =
                       fold (\<lambda>uniq_lab sid_lut.
                               AList.update uniq_lab (sids_with_lab sids' labs' uniq_lab) sid_lut)
                         (np_unique labs') [],
                     self_lab_lut =
                       fold (\<lambda>i lab_lut. AList.update (sids' ! i) (labs' ! i) lab_lut)
                         [0..<length sids'] []\<rparr>)))"

section \<open>Lookups\<close>

text \<open>
  A comprehension whose body may raise: the elements are evaluated in order and the first
  exception ends the evaluation.
\<close>

fun map_err :: "('a \<Rightarrow> pyerr + 'b) \<Rightarrow> 'a list \<Rightarrow> pyerr + 'b list" where
  "map_err f [] = Inr []"
| "map_err f (x # xs) =
     (case f x of
        Inl e \<Rightarrow> Inl e
      | Inr y \<Rightarrow> (case map_err f xs of Inl e \<Rightarrow> Inl e | Inr ys \<Rightarrow> Inr (y # ys)))"

text \<open>\<^verbatim>\<open>lut[k]\<close> on a dict\<close>

definition dict_get :: "('k \<times> 'v) list \<Rightarrow> 'k \<Rightarrow> pyerr + 'v" where
  "dict_get lut k = (case map_of lut k of None \<Rightarrow> Inl (Propagated KeyError) | Some v \<Rightarrow> Inr v)"

text \<open>\<^verbatim>\<open>labs_to_sids(labs)\<close>: a tuple of tuples, here a list of lists.\<close>

definition labs_to_sids ::
  "SingleLabelClassifiedSamples \<Rightarrow> pyval list \<Rightarrow> pyerr + pyval list list" where
  "labs_to_sids self labs = map_err (\<lambda>y. dict_get (self_sid_lut self) y) labs"

text \<open>\<^verbatim>\<open>sids_to_labs(sids)\<close>\<close>

definition sids_to_labs ::
  "SingleLabelClassifiedSamples \<Rightarrow> pyval list \<Rightarrow> pyerr + pyval list" where
  "sids_to_labs self sids = map_err (\<lambda>x. dict_get (self_lab_lut self) x) sids"

section \<open>lab_sorted_sids\<close>

text \<open>
  The inner function \<^verbatim>\<open>sort_flat_sids(query_sids, ref_sids)\<close>, that is
  \<^verbatim>\<open>ref_sids[np.in1d(ref_sids, query_sids)]\<close>: the elements of \<open>ref_sids\<close> that occur in
  \<open>query_sids\<close>, in the order of \<open>ref_sids\<close>. Membership is equality of values, as
  \<^verbatim>\<open>np.in1d\<close> is on two arrays of one type.
\<close>

definition sort_flat_sids :: "pyval list \<Rightarrow> pyval list \<Rightarrow> pyval list" where
  "sort_flat_sids query_sids ref_sids = filter (\<lambda>r. r \<in> set query_sids) ref_sids"

text \<open>\<^verbatim>\<open>xs.index(x)\<close>: the first position of \<open>x\<close>, or a \<^verbatim>\<open>ValueError\<close>.\<close>

fun list_index :: "'a list \<Rightarrow> 'a \<Rightarrow> pyerr + nat" where
  "list_index [] x = Inl (Propagated ValueError)"
| "list_index (y # ys) x =
     (if y = x then Inr 0
      else (case list_index ys x of Inl e \<Rightarrow> Inl e | Inr i \<Rightarrow> Inr (Suc i)))"

text \<open>\<^verbatim>\<open>x[0]\<close> on an array\<close>

fun first :: "'a list \<Rightarrow> pyerr + 'a" where
  "first [] = Inl (Propagated IndexError)"
| "first (x # xs) = Inr x"

text \<open>
  \<^verbatim>\<open>np.argsort\<close>: the positions of an array in the order of their values. The source sorts
  arrays without repeated values only, where every sorting algorithm gives this result.
\<close>

definition np_argsort :: "pyval list \<Rightarrow> nat list" where
  "np_argsort xs = sort_key (\<lambda>i. xs ! i) [0..<length xs]"

text \<open>
  The block under \<^verbatim>\<open>if ref_sid_order is not None\<close>: from the buckets and their label
  arrays to the reordered ones. The positions in \<open>ind\<close> come from \<^verbatim>\<open>index\<close> on a list as
  long as both lists, so the reads \<open>!\<close> are in range.
\<close>

definition reorder_by_ref ::
  "pylist \<Rightarrow> pyval list list \<Rightarrow> pyval list list \<Rightarrow> pyerr + (pyval list list \<times> pyval list list)"
  where
  "reorder_by_ref ref_sid_order sep_lab_sid_list sep_lab_list =
     (case check_is_valid_sfids ref_sid_order of
        Inl e \<Rightarrow> Inl e
      | Inr _ \<Rightarrow>
         (let ref = the_list ref_sid_order;
              sep_lab_sid_list' = map (\<lambda>x. sort_flat_sids x ref) sep_lab_sid_list
          in case map_err first sep_lab_sid_list' of
               Inl e \<Rightarrow> Inl e
             | Inr sep_lab_min_sid_list \<Rightarrow>
                (let sorted_sep_lab_min_sid_list = sort_flat_sids sep_lab_min_sid_list ref
                 in case map_err (list_index sep_lab_min_sid_list) sorted_sep_lab_min_sid_list of
                      Inl e \<Rightarrow> Inl e
                    | Inr ind \<Rightarrow>
                        Inr (map (\<lambda>i. sep_lab_sid_list' ! i) ind,
                             map (\<lambda>i. sep_lab_list ! i) ind))))"

text \<open>
  The end of \<^verbatim>\<open>lab_sorted_sids\<close>: \<^verbatim>\<open>np.concatenate\<close> (which raises on an empty list of
  arrays) and the three \<^verbatim>\<open>assert_array_equal\<close> checks. When the third check is reached
  the first two have passed, so all four arrays have one length and its reads are in
  range.
\<close>

definition concat_and_check ::
  "SingleLabelClassifiedSamples \<Rightarrow> pyval list list \<Rightarrow> pyval list list
     \<Rightarrow> pyerr + (pyval list \<times> pyval list)" where
  "concat_and_check self sep_lab_sid_list sep_lab_list =
     (if sep_lab_sid_list = [] \<or> sep_lab_list = [] then Inl (Propagated ValueError)
      else
        let lab_sorted_sid_arr = concat sep_lab_sid_list;
            lab_sorted_lab_arr = concat sep_lab_list
        in if sort lab_sorted_sid_arr \<noteq> sort (self_sids self)
           then Inl (Propagated AssertionError)
           else if sort lab_sorted_lab_arr \<noteq> sort (self_labs self)
           then Inl (Propagated AssertionError)
           else if map (\<lambda>i. lab_sorted_lab_arr ! i) (np_argsort lab_sorted_sid_arr)
                   \<noteq> map (\<lambda>i. self_labs self ! i) (np_argsort (self_sids self))
           then Inl (Propagated AssertionError)
           else Inr (lab_sorted_sid_arr, lab_sorted_lab_arr))"

text \<open>\<^verbatim>\<open>lab_sorted_sids(ref_sid_order=None)\<close>\<close>

definition lab_sorted_sids ::
  "SingleLabelClassifiedSamples \<Rightarrow> pylist \<Rightarrow> pyerr + (pyval list \<times> pyval list)" where
  "lab_sorted_sids self ref_sid_order =
     (let keys = sort (map fst (self_sid_lut self))
      in case map_err (\<lambda>iter_lab. dict_get (self_sid_lut self) iter_lab) keys of
           Inl e \<Rightarrow> Inl e
         | Inr sep_lab_sid_list \<Rightarrow>
            (let sep_lab_list =
                   map (\<lambda>(iter_lab, iter_sid_arr). replicate (length iter_sid_arr) iter_lab)
                     (zip keys sep_lab_sid_list)
             in case ref_sid_order of
                  LNone \<Rightarrow> concat_and_check self sep_lab_sid_list sep_lab_list
                | _ \<Rightarrow>
                   (case reorder_by_ref ref_sid_order sep_lab_sid_list sep_lab_list of
                      Inl e \<Rightarrow> Inl e
                    | Inr (sep_lab_sid_list', sep_lab_list') \<Rightarrow>
                        concat_and_check self sep_lab_sid_list' sep_lab_list')))"

section \<open>cross_labs\<close>




section \<open>The invariant of an index\<close>

text \<open>
  What every constructed index satisfies (proved below): the sample ids are a valid id
  list, the labels a valid label list of the same length, and the two lookup tables are
  the ones these determine.
\<close>

definition index_inv :: "SingleLabelClassifiedSamples \<Rightarrow> bool" where
  "index_inv self =
     (check_is_valid_sfids (LList (self_sids self)) = Inr ()
      \<and> check_is_valid_labs (LList (self_labs self)) = Inr ()
      \<and> length (self_sids self) = length (self_labs self)
      \<and> self_sid_lut self =
          map (\<lambda>u. (u, sids_with_lab (self_sids self) (self_labs self) u))
            (np_unique (self_labs self))
      \<and> self_lab_lut self = zip (self_sids self) (self_labs self))"

section \<open>A concrete index\<close>

text \<open>
  The index of the scenarios: samples \<open>s1, s2, s3\<close> with labels \<open>a, b, a\<close>, one feature,
  distances computed by \<open>pd_zero\<close>.
\<close>

definition example_index :: SingleLabelClassifiedSamples where
  "example_index =
     \<lparr>self_x = NdArray2 3 1 [[1], [2], [3]],
      self_sids = [StrV ''s1'', StrV ''s2'', StrV ''s3''],
      self_fids = [IntV 0],
      self_d = ObjArray (NdArray2 3 3 [[0, 0, 0], [0, 0, 0], [0, 0, 0]]),
      self_metric = MStr ''correlation'',
      self_labs = [StrV ''a'', StrV ''b'', StrV ''a''],
      self_sid_lut = [(StrV ''a'', [StrV ''s1'', StrV ''s3'']), (StrV ''b'', [StrV ''s2''])],
      self_lab_lut =
        [(StrV ''s1'', StrV ''a''), (StrV ''s2'', StrV ''b''), (StrV ''s3'', StrV ''a'')]\<rparr>"

section \<open>Properties of num_correct_dist_mat\<close>

lemma num_correct_dist_mat_CNone:
  assumes "h a = ObjArray (NdArray2 n n m)"
  shows "num_correct_dist_mat h a CNone =
    (Inr a, h(a := ObjArray (NdArray2 n n (symmetrize n (zero_diag n (clamp_neg m))))))"
  using assms by (simp add: num_correct_dist_mat_def upd_cells_def)

lemma num_correct_dist_mat_Conv:
  assumes "h a = ObjArray (NdArray2 n n m)"
  shows "num_correct_dist_mat h a (Conv b) =
    (Inr a, h(a := ObjArray
       (NdArray2 n n (symmetrize n (clamp_ub b (zero_diag n (clamp_neg m)))))))"
  using assms by (simp add: num_correct_dist_mat_def upd_cells_def)

lemma num_correct_fresh_CNone:
  "num_correct_fresh (ObjArray (NdArray2 n n m)) CNone =
     Inr (ObjArray (NdArray2 n n (symmetrize n (zero_diag n (clamp_neg m)))))"
proof -
  have "heap_of (ObjArray (NdArray2 n n m)) 0 = ObjArray (NdArray2 n n m)"
    by (simp add: heap_of_def)
  then show ?thesis
    by (simp add: num_correct_fresh_def
        num_correct_dist_mat_CNone[of "heap_of (ObjArray (NdArray2 n n m))" 0 n m])
qed

lemma num_correct_fresh_Conv:
  "num_correct_fresh (ObjArray (NdArray2 n n m)) (Conv b) =
     Inr (ObjArray (NdArray2 n n (symmetrize n (clamp_ub b (zero_diag n (clamp_neg m))))))"
proof -
  have "heap_of (ObjArray (NdArray2 n n m)) 0 = ObjArray (NdArray2 n n m)"
    by (simp add: heap_of_def)
  then show ?thesis
    by (simp add: num_correct_fresh_def
        num_correct_dist_mat_Conv[of "heap_of (ObjArray (NdArray2 n n m))" 0 n m])
qed

lemma wf_square: "wf_ndarray (NdArray2 n n m) = square n m"
  by (auto simp: square_def list_all_length)

lemma square_clamp_neg: "square n m \<Longrightarrow> square n (clamp_neg m)"
  by (simp add: square_def clamp_neg_def)

lemma square_clamp_ub: "square n m \<Longrightarrow> square n (clamp_ub b m)"
  by (simp add: square_def clamp_ub_def)

lemma square_zero_diag: "square n m \<Longrightarrow> square n (zero_diag n m)"
  by (simp add: square_def zero_diag_def)

lemma square_symmetrize: "square n (symmetrize n m)"
  by (simp add: square_def symmetrize_def triu_assign_def)

lemma cell_clamp_neg:
  "square n m \<Longrightarrow> i < n \<Longrightarrow> j < n \<Longrightarrow>
   clamp_neg m ! i ! j = (if m ! i ! j < 0 then 0 else m ! i ! j)"
  by (simp add: square_def clamp_neg_def)

lemma cell_clamp_ub:
  "square n m \<Longrightarrow> i < n \<Longrightarrow> j < n \<Longrightarrow>
   clamp_ub b m ! i ! j = (if m ! i ! j > b then b else m ! i ! j)"
  by (simp add: square_def clamp_ub_def)

lemma cell_zero_diag:
  "square n m \<Longrightarrow> i < n \<Longrightarrow> j < n \<Longrightarrow>
   zero_diag n m ! i ! j = (if i = j then 0 else m ! i ! j)"
  by (simp add: square_def zero_diag_def)

lemma cell_symmetrize:
  "i < n \<Longrightarrow> j < n \<Longrightarrow>
   symmetrize n m ! i ! j = (if i \<le> j then m ! j ! i else m ! i ! j)"
  by (simp add: symmetrize_def triu_assign_def arr_T_def)

lemma arr_T_symmetrize: "arr_T n (symmetrize n m) = symmetrize n m"
proof -
  have "\<And>i j. i < n \<Longrightarrow> j < n \<Longrightarrow> symmetrize n m ! j ! i = symmetrize n m ! i ! j"
    by (auto simp: cell_symmetrize)
  then show ?thesis
    by (auto simp: arr_T_def list_eq_iff_nth_eq square_symmetrize[unfolded square_def])
qed

lemma cell_corrected_CNone:
  assumes "square n m" and "i < n" and "j < n"
  shows "symmetrize n (zero_diag n (clamp_neg m)) ! i ! j =
         (if i = j then 0
          else if m ! max i j ! min i j < 0 then 0 else m ! max i j ! min i j)"
proof -
  have sq: "square n (clamp_neg m)" using assms(1) by (rule square_clamp_neg)
  show ?thesis
    using assms
    by (auto simp: cell_symmetrize cell_zero_diag[OF sq] cell_clamp_neg max_def min_def)
qed

lemma cell_corrected_Conv:
  assumes "square n m" and "i < n" and "j < n"
  shows "symmetrize n (clamp_ub b (zero_diag n (clamp_neg m))) ! i ! j =
         (let v = m ! max i j ! min i j;
              v1 = (if v < 0 then 0 else v);
              v2 = (if i = j then 0 else v1)
          in if v2 > b then b else v2)"
proof -
  have sq: "square n (clamp_neg m)" using assms(1) by (rule square_clamp_neg)
  have sq2: "square n (zero_diag n (clamp_neg m))" using sq by (rule square_zero_diag)
  show ?thesis
    using assms
    by (auto simp: cell_symmetrize cell_clamp_ub[OF sq2] cell_zero_diag[OF sq] cell_clamp_neg
        max_def min_def Let_def)
qed

lemma num_correct_fresh_scenario:
  "num_correct_fresh (ObjArray (NdArray2 3 3 [[0, 1, 2], [1, 0, - (1 / 2)], [2, 1 / 2, 0]])) CNone
   = Inr (ObjArray (NdArray2 3 3 [[0, 1, 2], [1, 0, 1 / 2], [2, 1 / 2, 0]]))"
  by (simp add: num_correct_fresh_def heap_of_def num_correct_dist_mat_def upd_cells_def
      clamp_neg_def zero_diag_def symmetrize_def arr_T_def triu_assign_def upt_conv_Cons)

text \<open>
  C1 (as the code has it). The repair steps are applied in this order: negative cells
  become 0, the diagonal becomes 0, cells above the upper bound (when one is given)
  become the bound, and last the cells on and above the diagonal are overwritten with
  the transposed cells, so the lower triangle is the one that is kept. Cell \<open>(i, j)\<close> of
  the result is therefore the repaired cell \<open>(max i j, min i j)\<close> of the input. On
  \<open>[[0,1,2],[1,0,-0.5],[2,0.5,0]]\<close> without a bound the result is
  \<open>[[0,1,2],[1,0,0.5],[2,0.5,0]]\<close>.
\<close>

theorem num_correct_dist_mat_steps:
  assumes "h a = ObjArray (NdArray2 n n m)"
    and "wf_ndarray (NdArray2 n n m)"
    and "ub = CNone \<or> ub = Conv b"
  shows "fst (num_correct_dist_mat h a ub) = Inr a
       \<and> wf_ndarray (NdArray2 n n (cells (snd (num_correct_dist_mat h a ub) a)))
       \<and> (\<forall>i<n. \<forall>j<n.
            cells (snd (num_correct_dist_mat h a ub) a) ! i ! j =
              (let v = m ! max i j ! min i j;
                   v1 = (if v < 0 then 0 else v);
                   v2 = (if i = j then 0 else v1)
               in case ub of Conv b' \<Rightarrow> (if v2 > b' then b' else v2) | _ \<Rightarrow> v2))
       \<and> num_correct_fresh
            (ObjArray (NdArray2 3 3 [[0, 1, 2], [1, 0, - (1 / 2)], [2, 1 / 2, 0]])) CNone
          = Inr (ObjArray (NdArray2 3 3 [[0, 1, 2], [1, 0, 1 / 2], [2, 1 / 2, 0]]))"
proof -
  have sq: "square n m" using assms(2) by (simp only: wf_square)
  show ?thesis
  proof (cases ub)
    case CNone
    show ?thesis
      using sq assms(1)
      by (simp add: CNone num_correct_dist_mat_CNone[of h a n m] wf_square square_symmetrize
          cell_corrected_CNone num_correct_fresh_scenario Let_def del: wf_ndarray.simps)
  next
    case (Conv b')
    show ?thesis
      using sq assms(1)
      by (simp add: Conv num_correct_dist_mat_Conv[of h a n m] wf_square square_symmetrize
          cell_corrected_Conv num_correct_fresh_scenario Let_def del: wf_ndarray.simps)
  next
    case (Unconv e)
    with assms(3) show ?thesis by simp
  qed
qed

theorem num_correct_dist_mat_steps_witness:
  "heap_of (ObjArray (NdArray2 2 2 [[5, - 1], [3, 7]])) 0 = ObjArray (NdArray2 2 2 [[5, - 1], [3, 7]])
   \<and> wf_ndarray (NdArray2 2 2 [[5, - 1], [3, 7]])
   \<and> fst (num_correct_dist_mat (heap_of (ObjArray (NdArray2 2 2 [[5, - 1], [3, 7]]))) 0 (Conv 2))
       = Inr 0
   \<and> cells (snd (num_correct_dist_mat (heap_of (ObjArray (NdArray2 2 2 [[5, - 1], [3, 7]]))) 0
        (Conv 2)) 0) ! 0 ! 1 = 2
   \<and> cells (snd (num_correct_dist_mat (heap_of (ObjArray (NdArray2 2 2 [[5, - 1], [3, 7]]))) 0
        (Conv 2)) 0) ! 1 ! 1 = 0"
  using num_correct_dist_mat_steps
    [of "heap_of (ObjArray (NdArray2 2 2 [[5, - 1], [3, 7]]))" 0 2 "[[5, - 1], [3, 7]]"
        "Conv 2" 2]
  by (simp add: heap_of_def)

theorem num_correct_dist_mat_upper_counterexample:
  "num_correct_fresh (ObjArray (NdArray2 3 3 [[0, 1, 2], [1, 0, - (1 / 2)], [2, 1 / 2, 0]])) CNone
   \<noteq> Inr (ObjArray (NdArray2 3 3 [[0, 1, 2], [1, 0, 0], [2, 0, 0]]))"
  by (simp add: num_correct_fresh_scenario)

text \<open>
  C5. For every square 2-D array the call without an upper bound returns (it does not
  raise), every diagonal cell of the result is 0, and the result equals its transpose.
\<close>

theorem num_correct_dist_mat_diag_symmetric:
  assumes "h a = ObjArray (NdArray2 n n m)"
    and "wf_ndarray (NdArray2 n n m)"
  shows "\<exists>m'. num_correct_dist_mat h a CNone = (Inr a, h(a := ObjArray (NdArray2 n n m')))
           \<and> wf_ndarray (NdArray2 n n m')
           \<and> (\<forall>i<n. m' ! i ! i = 0)
           \<and> arr_T n m' = m'
           \<and> (\<forall>i<n. \<forall>j<n. m' ! i ! j = m' ! j ! i)"
proof -
  let ?m = "symmetrize n (zero_diag n (clamp_neg m))"
  have sq: "square n m" using assms(2) by (simp only: wf_square)
  have "num_correct_dist_mat h a CNone = (Inr a, h(a := ObjArray (NdArray2 n n ?m)))"
    using assms(1) by (simp add: num_correct_dist_mat_CNone[of h a n m])
  moreover have "wf_ndarray (NdArray2 n n ?m)"
    by (simp only: wf_square square_symmetrize)
  moreover have "\<forall>i<n. ?m ! i ! i = 0"
    using sq by (simp add: cell_corrected_CNone)
  moreover have "arr_T n ?m = ?m" by (rule arr_T_symmetrize)
  moreover have "\<forall>i<n. \<forall>j<n. ?m ! i ! j = ?m ! j ! i"
    by (auto simp: cell_symmetrize)
  ultimately show ?thesis by blast
qed

theorem num_correct_dist_mat_diag_symmetric_witness:
  "heap_of (ObjArray (NdArray2 2 2 [[5, - 1], [3, 7]])) 0 = ObjArray (NdArray2 2 2 [[5, - 1], [3, 7]])
   \<and> wf_ndarray (NdArray2 2 2 [[5, - 1], [3, 7]])
   \<and> fst (num_correct_dist_mat (heap_of (ObjArray (NdArray2 2 2 [[5, - 1], [3, 7]]))) 0 CNone)
       = Inr 0
   \<and> arr_T 2 (cells (snd (num_correct_dist_mat
         (heap_of (ObjArray (NdArray2 2 2 [[5, - 1], [3, 7]]))) 0 CNone) 0))
       = cells (snd (num_correct_dist_mat
         (heap_of (ObjArray (NdArray2 2 2 [[5, - 1], [3, 7]]))) 0 CNone) 0)"
  using num_correct_dist_mat_diag_symmetric
    [of "heap_of (ObjArray (NdArray2 2 2 [[5, - 1], [3, 7]]))" 0 2 "[[5, - 1], [3, 7]]"]
  by (auto simp: heap_of_def)

lemma square_2_rows:
  assumes "square 2 m"
  shows "m = [[m ! 0 ! 0, m ! 0 ! 1], [m ! 1 ! 0, m ! 1 ! 1]]"
proof -
  have two: "xs = [xs ! 0, xs ! 1]" if "length xs = 2" for xs :: "'a list"
    using that by (auto simp: length_Suc_conv numeral_2_eq_2)
  from assms have l: "length m = 2" and r0: "length (m ! 0) = 2" and r1: "length (m ! 1) = 2"
    by (simp_all add: square_def)
  have "m = [m ! 0, m ! 1]" using l by (rule two)
  moreover have "m ! 0 = [m ! 0 ! 0, m ! 0 ! 1]" using r0 by (rule two)
  moreover have "m ! 1 = [m ! 1 ! 0, m ! 1 ! 1]" using r1 by (rule two)
  ultimately show ?thesis by metis
qed

text \<open>
  C10. The function works in place. For a square 2-D array at the reference \<open>dmat\<close> (and
  an upper bound that is absent or a number) the call returns the reference \<open>dmat\<close>
  itself; no object at another reference changes; and the array at \<open>dmat\<close>, the one the
  caller holds, keeps its shape and now holds the corrected cells: cell \<open>(i, j)\<close> is the
  input cell \<open>(max i j, min i j)\<close> with a negative value replaced by 0, then a diagonal
  cell replaced by 0, then a value above the bound replaced by the bound. These are the
  cells that the call returns on a private copy of the array.
\<close>

theorem num_correct_dist_mat_in_place:
  assumes "h dmat = ObjArray (NdArray2 n n m)"
    and "ub = CNone \<or> ub = Conv b"
  shows "fst (num_correct_dist_mat h dmat ub) = Inr dmat
       \<and> (\<forall>a. a \<noteq> dmat \<longrightarrow> snd (num_correct_dist_mat h dmat ub) a = h a)
       \<and> (\<exists>m'. snd (num_correct_dist_mat h dmat ub) dmat = ObjArray (NdArray2 n n m')
             \<and> (wf_ndarray (NdArray2 n n m) \<longrightarrow>
                  wf_ndarray (NdArray2 n n m')
                  \<and> (\<forall>i<n. \<forall>j<n.
                        m' ! i ! j =
                          (let v = m ! max i j ! min i j;
                               v1 = (if v < 0 then 0 else v);
                               v2 = (if i = j then 0 else v1)
                           in case ub of Conv b' \<Rightarrow> (if v2 > b' then b' else v2)
                              | _ \<Rightarrow> v2))))
       \<and> num_correct_fresh (h dmat) ub = Inr (snd (num_correct_dist_mat h dmat ub) dmat)
       \<and> snd (num_correct_dist_mat h dmat ub) =
           h(dmat := snd (num_correct_dist_mat h dmat ub) dmat)"
proof -
  from assms(2) show ?thesis
  proof
    assume u: "ub = CNone"
    let ?m = "symmetrize n (zero_diag n (clamp_neg m))"
    have run: "num_correct_dist_mat h dmat ub = (Inr dmat, h(dmat := ObjArray (NdArray2 n n ?m)))"
      using assms(1) by (simp add: u num_correct_dist_mat_CNone[of h dmat n m])
    have fresh: "num_correct_fresh (h dmat) ub = Inr (ObjArray (NdArray2 n n ?m))"
      using assms(1) by (simp add: u num_correct_fresh_CNone)
    have wf: "wf_ndarray (NdArray2 n n ?m)" by (simp only: wf_square square_symmetrize)
    have cell: "\<forall>i<n. \<forall>j<n. ?m ! i ! j =
        (let v = m ! max i j ! min i j;
             v1 = (if v < 0 then 0 else v);
             v2 = (if i = j then 0 else v1)
         in case ub of Conv b' \<Rightarrow> (if v2 > b' then b' else v2) | _ \<Rightarrow> v2)"
      if "wf_ndarray (NdArray2 n n m)"
    proof -
      from that have "square n m" by (simp only: wf_square)
      then show ?thesis by (simp add: u cell_corrected_CNone Let_def)
    qed
    have arr: "\<exists>m'. snd (num_correct_dist_mat h dmat ub) dmat = ObjArray (NdArray2 n n m')
             \<and> (wf_ndarray (NdArray2 n n m) \<longrightarrow>
                  wf_ndarray (NdArray2 n n m')
                  \<and> (\<forall>i<n. \<forall>j<n.
                        m' ! i ! j =
                          (let v = m ! max i j ! min i j;
                               v1 = (if v < 0 then 0 else v);
                               v2 = (if i = j then 0 else v1)
                           in case ub of Conv b' \<Rightarrow> (if v2 > b' then b' else v2)
                              | _ \<Rightarrow> v2)))"
      by (rule exI[of _ ?m]) (use wf cell in \<open>simp add: run del: wf_ndarray.simps\<close>)
    have rest: "fst (num_correct_dist_mat h dmat ub) = Inr dmat"
      "\<forall>a. a \<noteq> dmat \<longrightarrow> snd (num_correct_dist_mat h dmat ub) a = h a"
      "num_correct_fresh (h dmat) ub = Inr (snd (num_correct_dist_mat h dmat ub) dmat)"
      "snd (num_correct_dist_mat h dmat ub) =
         h(dmat := snd (num_correct_dist_mat h dmat ub) dmat)"
      by (simp_all add: run fresh)
    from rest(1) rest(2) arr rest(3) rest(4) show ?thesis by (intro conjI)
  next
    assume u: "ub = Conv b"
    let ?m = "symmetrize n (clamp_ub b (zero_diag n (clamp_neg m)))"
    have run: "num_correct_dist_mat h dmat ub = (Inr dmat, h(dmat := ObjArray (NdArray2 n n ?m)))"
      using assms(1) by (simp add: u num_correct_dist_mat_Conv[of h dmat n m])
    have fresh: "num_correct_fresh (h dmat) ub = Inr (ObjArray (NdArray2 n n ?m))"
      using assms(1) by (simp add: u num_correct_fresh_Conv)
    have wf: "wf_ndarray (NdArray2 n n ?m)" by (simp only: wf_square square_symmetrize)
    have cell: "\<forall>i<n. \<forall>j<n. ?m ! i ! j =
        (let v = m ! max i j ! min i j;
             v1 = (if v < 0 then 0 else v);
             v2 = (if i = j then 0 else v1)
         in case ub of Conv b' \<Rightarrow> (if v2 > b' then b' else v2) | _ \<Rightarrow> v2)"
      if "wf_ndarray (NdArray2 n n m)"
    proof -
      from that have "square n m" by (simp only: wf_square)
      then show ?thesis by (simp add: u cell_corrected_Conv Let_def)
    qed
    have arr: "\<exists>m'. snd (num_correct_dist_mat h dmat ub) dmat = ObjArray (NdArray2 n n m')
             \<and> (wf_ndarray (NdArray2 n n m) \<longrightarrow>
                  wf_ndarray (NdArray2 n n m')
                  \<and> (\<forall>i<n. \<forall>j<n.
                        m' ! i ! j =
                          (let v = m ! max i j ! min i j;
                               v1 = (if v < 0 then 0 else v);
                               v2 = (if i = j then 0 else v1)
                           in case ub of Conv b' \<Rightarrow> (if v2 > b' then b' else v2)
                              | _ \<Rightarrow> v2)))"
      by (rule exI[of _ ?m]) (use wf cell in \<open>simp add: run del: wf_ndarray.simps\<close>)
    have rest: "fst (num_correct_dist_mat h dmat ub) = Inr dmat"
      "\<forall>a. a \<noteq> dmat \<longrightarrow> snd (num_correct_dist_mat h dmat ub) a = h a"
      "num_correct_fresh (h dmat) ub = Inr (snd (num_correct_dist_mat h dmat ub) dmat)"
      "snd (num_correct_dist_mat h dmat ub) =
         h(dmat := snd (num_correct_dist_mat h dmat ub) dmat)"
      by (simp_all add: run fresh)
    from rest(1) rest(2) arr rest(3) rest(4) show ?thesis by (intro conjI)
  qed
qed

theorem num_correct_dist_mat_in_place_witness:
  "((heap_of ObjOther)(4 := ObjArray (NdArray2 2 2 [[5, - 1], [3, 7]]))) 4
     = ObjArray (NdArray2 2 2 [[5, - 1], [3, 7]])
   \<and> wf_ndarray (NdArray2 2 2 [[5, - 1], [3, 7]])
   \<and> fst (num_correct_dist_mat
        ((heap_of ObjOther)(4 := ObjArray (NdArray2 2 2 [[5, - 1], [3, 7]]))) 4 (Conv 2)) = Inr 4
   \<and> snd (num_correct_dist_mat
        ((heap_of ObjOther)(4 := ObjArray (NdArray2 2 2 [[5, - 1], [3, 7]]))) 4 (Conv 2)) 4
     = ObjArray (NdArray2 2 2 [[0, 2], [2, 0]])
   \<and> snd (num_correct_dist_mat
        ((heap_of ObjOther)(4 := ObjArray (NdArray2 2 2 [[5, - 1], [3, 7]]))) 4 (Conv 2)) 7
     = ObjOther"
proof -
  let ?M = "[[5, - 1], [3, 7]] :: real list list"
  let ?h = "(heap_of ObjOther)(4 := ObjArray (NdArray2 2 2 ?M))"
  let ?run = "num_correct_dist_mat ?h 4 (Conv 2)"
  have h: "?h 4 = ObjArray (NdArray2 2 2 ?M)" by simp
  have w: "wf_ndarray (NdArray2 2 2 ?M)" by simp
  have u: "Conv (2::real) = CNone \<or> Conv (2::real) = Conv 2" by simp
  note t = num_correct_dist_mat_in_place[of ?h 4 2 ?M "Conv 2" 2, OF h u]
  have ret: "fst ?run = Inr 4" by (rule t[THEN conjunct1])
  have frame: "\<forall>a. a \<noteq> 4 \<longrightarrow> snd ?run a = ?h a"
    by (rule t[THEN conjunct2, THEN conjunct1])
  have "\<exists>m'. snd ?run 4 = ObjArray (NdArray2 2 2 m')
             \<and> (wf_ndarray (NdArray2 2 2 ?M) \<longrightarrow>
                  wf_ndarray (NdArray2 2 2 m')
                  \<and> (\<forall>i<2. \<forall>j<2.
                        m' ! i ! j =
                          (let v = ?M ! max i j ! min i j;
                               v1 = (if v < 0 then 0 else v);
                               v2 = (if i = j then 0 else v1)
                           in case Conv (2::real) of Conv b' \<Rightarrow> (if v2 > b' then b' else v2)
                              | _ \<Rightarrow> v2)))"
    by (rule t[THEN conjunct2, THEN conjunct2, THEN conjunct1])
  then obtain m' where a: "snd ?run 4 = ObjArray (NdArray2 2 2 m')"
    and sq: "wf_ndarray (NdArray2 2 2 m')"
    and c: "\<forall>i<2. \<forall>j<2.
              m' ! i ! j =
                (let v = ?M ! max i j ! min i j;
                     v1 = (if v < 0 then 0 else v);
                     v2 = (if i = j then 0 else v1)
                 in case Conv (2::real) of Conv b' \<Rightarrow> (if v2 > b' then b' else v2)
                    | _ \<Rightarrow> v2)"
    using w by blast
  from c have c00: "m' ! 0 ! 0 = 0" by (simp add: Let_def)
  from c have c01: "m' ! 0 ! 1 = 2" by (simp add: Let_def)
  from c have c10: "m' ! 1 ! 0 = 2" by (simp add: Let_def)
  from c have c11: "m' ! 1 ! 1 = 0" by (simp add: Let_def)
  from sq have "square 2 m'" by (simp only: wf_square)
  from square_2_rows[OF this] have "m' = [[0, 2], [2, 0]]"
    by (simp only: c00 c01 c10 c11)
  with a have cellsv: "snd ?run 4 = ObjArray (NdArray2 2 2 [[0, 2], [2, 0]])" by simp
  from frame have other: "snd ?run 7 = ObjOther" by (simp add: heap_of_def)
  from h w ret cellsv other show ?thesis by (intro conjI)
qed

section \<open>Properties of the validators\<close>

lemma one_type_iff:
  "length (remdups (map type_of xs)) = 1 \<longleftrightarrow>
   xs \<noteq> [] \<and> (\<forall>x\<in>set xs. \<forall>y\<in>set xs. type_of x = type_of y)"
proof -
  have "length (remdups (map type_of xs)) = card (type_of ` set xs)"
    by (simp add: length_remdups_card_conv)
  moreover have "card (type_of ` set xs) = 1 \<longleftrightarrow>
      xs \<noteq> [] \<and> (\<forall>x\<in>set xs. \<forall>y\<in>set xs. type_of x = type_of y)"
  proof
    assume "card (type_of ` set xs) = 1"
    then obtain t where t: "type_of ` set xs = {t}"
      by (rule card_1_singletonE)
    have "\<forall>x\<in>set xs. type_of x = t" using t by blast
    moreover from t have "xs \<noteq> []" by fastforce
    ultimately show "xs \<noteq> [] \<and> (\<forall>x\<in>set xs. \<forall>y\<in>set xs. type_of x = type_of y)"
      by metis
  next
    assume a: "xs \<noteq> [] \<and> (\<forall>x\<in>set xs. \<forall>y\<in>set xs. type_of x = type_of y)"
    then obtain x where x: "x \<in> set xs" by (cases xs) auto
    with a have "type_of ` set xs = {type_of x}" by blast
    then show "card (type_of ` set xs) = 1" by simp
  qed
  ultimately show ?thesis by simp
qed

lemma first_type_iff:
  assumes "xs \<noteq> []" and "\<forall>x\<in>set xs. \<forall>y\<in>set xs. type_of x = type_of y"
  shows "(type_of (xs ! 0) = TStr \<or> type_of (xs ! 0) = TInt) \<longleftrightarrow>
         (\<forall>x\<in>set xs. type_of x = TInt \<or> type_of x = TStr)"
proof -
  from assms(1) have m: "xs ! 0 \<in> set xs" by (cases xs) auto
  with assms(2) have e: "\<forall>x\<in>set xs. type_of x = type_of (xs ! 0)" by blast
  show ?thesis
  proof
    assume "type_of (xs ! 0) = TStr \<or> type_of (xs ! 0) = TInt"
    with e show "\<forall>x\<in>set xs. type_of x = TInt \<or> type_of x = TStr" by metis
  next
    assume "\<forall>x\<in>set xs. type_of x = TInt \<or> type_of x = TStr"
    with m show "type_of (xs ! 0) = TStr \<or> type_of (xs ! 0) = TInt" by blast
  qed
qed

lemma check_is_valid_sfids_unfold:
  "check_is_valid_sfids (LList xs) = Inr () \<longleftrightarrow>
     xs \<noteq> [] \<and> length (remdups (map type_of xs)) = 1 \<and> is_valid_sfid (xs ! 0) \<and> distinct xs"
  by (simp add: check_is_valid_sfids_def is_uniq_np1darr_def)

lemma check_is_valid_labs_unfold:
  "check_is_valid_labs (LList xs) = Inr () \<longleftrightarrow>
     xs \<noteq> [] \<and> length (remdups (map type_of xs)) = 1 \<and> is_valid_lab (xs ! 0)"
  by (simp add: check_is_valid_labs_def)

lemma check_is_valid_sfids_LList:
  "check_is_valid_sfids (LList xs) = Inr () \<longleftrightarrow>
     xs \<noteq> [] \<and> (\<forall>x\<in>set xs. \<forall>y\<in>set xs. type_of x = type_of y)
     \<and> (\<forall>x\<in>set xs. type_of x = TInt \<or> type_of x = TStr) \<and> distinct xs"
  unfolding check_is_valid_sfids_unfold one_type_iff is_valid_sfid_def
  using first_type_iff[of xs] by blast

lemma check_is_valid_labs_LList:
  "check_is_valid_labs (LList xs) = Inr () \<longleftrightarrow>
     xs \<noteq> [] \<and> (\<forall>x\<in>set xs. \<forall>y\<in>set xs. type_of x = type_of y)
     \<and> (\<forall>x\<in>set xs. type_of x = TInt \<or> type_of x = TStr)"
  unfolding check_is_valid_labs_unfold one_type_iff is_valid_lab_def
  using first_type_iff[of xs] by blast

lemma check_is_valid_sfids_error:
  "check_is_valid_sfids sfids = Inr ()
   \<or> (\<exists>msg. check_is_valid_sfids sfids = Inl (Raise ValueError msg))"
  by (cases sfids) (simp_all add: check_is_valid_sfids_def)

text \<open>
  C4. The validator accepts its argument exactly when it is a list that is non-empty, of
  one element type, that type being int or str, and without a repeated value. In every
  other case (the argument is \<^verbatim>\<open>None\<close>, is not a list, is empty, has mixed types, has
  another type, has duplicates) it raises the \<^verbatim>\<open>ValueError\<close> of the validator.
\<close>

theorem check_is_valid_sfids_accepts_iff:
  "(check_is_valid_sfids sfids = Inr () \<longleftrightarrow>
      (\<exists>xs. sfids = LList xs \<and> xs \<noteq> []
            \<and> (\<forall>x\<in>set xs. \<forall>y\<in>set xs. type_of x = type_of y)
            \<and> (\<forall>x\<in>set xs. type_of x = TInt \<or> type_of x = TStr)
            \<and> distinct xs))
   \<and> ((\<exists>msg. check_is_valid_sfids sfids = Inl (Raise ValueError msg)) \<longleftrightarrow>
      (sfids = LNone \<or> sfids = LOther
       \<or> (\<exists>xs. sfids = LList xs
             \<and> (xs = []
                \<or> (\<exists>x\<in>set xs. \<exists>y\<in>set xs. type_of x \<noteq> type_of y)
                \<or> (\<exists>x\<in>set xs. type_of x \<noteq> TInt \<and> type_of x \<noteq> TStr)
                \<or> \<not> distinct xs))))"
proof (cases sfids)
  case LNone
  then show ?thesis by (simp add: check_is_valid_sfids_def)
next
  case (LList xs)
  have e: "check_is_valid_sfids (LList xs) = Inr ()
      \<or> (\<exists>msg. check_is_valid_sfids (LList xs) = Inl (Raise ValueError msg))"
    by (rule check_is_valid_sfids_error)
  have n: "\<not> (check_is_valid_sfids (LList xs) = Inr ()
      \<and> (\<exists>msg. check_is_valid_sfids (LList xs) = Inl (Raise ValueError msg)))"
    by auto
  have acc: "check_is_valid_sfids (LList xs) = Inr () \<longleftrightarrow>
     xs \<noteq> [] \<and> (\<forall>x\<in>set xs. \<forall>y\<in>set xs. type_of x = type_of y)
     \<and> (\<forall>x\<in>set xs. type_of x = TInt \<or> type_of x = TStr) \<and> distinct xs"
    by (rule check_is_valid_sfids_LList)
  have rej: "(\<exists>msg. check_is_valid_sfids (LList xs) = Inl (Raise ValueError msg)) \<longleftrightarrow>
     (xs = [] \<or> (\<exists>x\<in>set xs. \<exists>y\<in>set xs. type_of x \<noteq> type_of y)
      \<or> (\<exists>x\<in>set xs. type_of x \<noteq> TInt \<and> type_of x \<noteq> TStr) \<or> \<not> distinct xs)"
    using e n acc by blast
  show ?thesis
    unfolding LList using acc rej by simp
next
  case LOther
  then show ?thesis by (simp add: check_is_valid_sfids_def)
qed

theorem check_is_valid_sfids_accepts_iff_witness:
  "check_is_valid_sfids (LList [IntV 3, IntV 1]) = Inr ()
   \<and> check_is_valid_sfids (LList [IntV 3, StrV ''a'']) =
       Inl (Raise ValueError ''[sf]ids must be a homogenous list of int or str'')
   \<and> (\<exists>msg. check_is_valid_sfids (LList [StrV ''a'', StrV ''a'']) = Inl (Raise ValueError msg))"
proof -
  have "check_is_valid_sfids (LList [IntV 3, IntV 1]) = Inr ()"
    using check_is_valid_sfids_accepts_iff[of "LList [IntV 3, IntV 1]"] by simp
  moreover have "check_is_valid_sfids (LList [IntV 3, StrV ''a'']) =
       Inl (Raise ValueError ''[sf]ids must be a homogenous list of int or str'')"
    by (simp add: check_is_valid_sfids_def)
  moreover have "\<exists>msg. check_is_valid_sfids (LList [StrV ''a'', StrV ''a'']) = Inl (Raise ValueError msg)"
    using check_is_valid_sfids_accepts_iff[of "LList [StrV ''a'', StrV ''a'']"] by simp
  ultimately show ?thesis by blast
qed

section \<open>Properties of the constructors\<close>

lemma distinct_range_ids: "distinct (range_ids n)"
  by (simp add: range_ids_def distinct_map inj_on_def)

lemma length_range_ids: "length (range_ids n) = n"
  by (simp add: range_ids_def)

lemma check_is_valid_sfids_Inr:
  assumes "check_is_valid_sfids ids = Inr u"
  shows "ids = LList (the_list ids) \<and> the_list ids \<noteq> [] \<and> distinct (the_list ids)"
proof (cases ids)
  case (LList xs)
  from assms have "check_is_valid_sfids (LList xs) = Inr ()" using LList by simp
  then have "xs \<noteq> [] \<and> distinct xs" unfolding check_is_valid_sfids_LList by blast
  then show ?thesis using LList by simp
qed (use assms in \<open>simp_all add: check_is_valid_sfids_def\<close>)

lemma init_ids_Inr:
  assumes "init_ids ids n = Inr xs"
  shows "length xs = n \<and> distinct xs
       \<and> (if ids = LNone then xs = range_ids n
          else check_is_valid_sfids ids = Inr () \<and> xs = the_list ids)"
proof (cases "ids = LNone")
  case True
  with assms show ?thesis
    by (auto simp: init_ids_def distinct_range_ids length_range_ids)
next
  case False
  with assms have v: "check_is_valid_sfids ids = Inr ()" and l: "length (the_list ids) = n"
    and x: "xs = the_list ids"
    by (auto simp: init_ids_def split: pylist.splits sum.splits if_splits)
  from check_is_valid_sfids_Inr[OF v] have "distinct (the_list ids)" by simp
  with False v l x show ?thesis by simp
qed

lemma SampleFeatureMatrix_init_Inr:
  assumes "SampleFeatureMatrix_init x sids fids = Inr s"
  shows "\<exists>r c m. x = Conv (NdArray2 r c m) \<and> r * c \<noteq> 0 \<and> self_x s = NdArray2 r c m
           \<and> init_ids sids r = Inr (self_sids s) \<and> init_ids fids c = Inr (self_fids s)"
  using assms
  by (auto simp: SampleFeatureMatrix_init_def
      split: conv.splits ndarray.splits sum.splits if_splits)

lemma SampleDistanceMatrix_init_Inr:
  assumes "SampleDistanceMatrix_init pd x d metric sids fids nprocs = Inr s"
  shows "\<exists>s0 d0. SampleFeatureMatrix_init x sids fids = Inr s0
           \<and> self_x s = self_x s0 \<and> self_sids s = self_sids s0 \<and> self_fids s = self_fids s0
           \<and> init_d pd (self_x s0) (shape0 (self_x s0)) d metric nprocs = Inr d0
           \<and> num_correct_fresh d0 CNone = Inr (self_d s)
           \<and> self_metric s = metric"
  using assms
  by (auto simp: SampleDistanceMatrix_init_def split: sum.splits)

lemma SingleLabelClassifiedSamples_init_Inr:
  assumes "SingleLabelClassifiedSamples_init pd x labs sids fids d metric nprocs = Inr self"
  shows "\<exists>s. SampleDistanceMatrix_init pd x d
               (case metric of None \<Rightarrow> MStr ''correlation'' | Some m \<Rightarrow> m) sids fids nprocs = Inr s
           \<and> check_is_valid_labs labs = Inr ()
           \<and> self_x self = self_x s \<and> self_sids self = self_sids s
           \<and> self_fids self = self_fids s \<and> self_d self = self_d s
           \<and> self_metric self = self_metric s
           \<and> self_labs self = the_list labs
           \<and> length (self_sids self) = length (self_labs self)
           \<and> self_sid_lut self =
               fold (\<lambda>uniq_lab sid_lut.
                       AList.update uniq_lab
                         (sids_with_lab (self_sids self) (self_labs self) uniq_lab) sid_lut)
                 (np_unique (self_labs self)) []
           \<and> self_lab_lut self =
               fold (\<lambda>i lab_lut.
                       AList.update (self_sids self ! i) (self_labs self ! i) lab_lut)
                 [0..<length (self_sids self)] []"
  using assms
  by (auto simp: SingleLabelClassifiedSamples_init_def Let_def split: sum.splits if_splits)

lemma init_d_not_missing_metric:
  "init_d pd x n d (MStr s) nprocs \<noteq> Inl (Raise ValueError ''If d is None, metric must be provided.'')"
  by (auto simp: init_d_def split: conv.splits sum.splits ndarray.splits)

lemma init_ids_not_missing_metric:
  "init_ids ids n \<noteq> Inl (Raise ValueError ''If d is None, metric must be provided.'')"
  by (auto simp: init_ids_def check_is_valid_sfids_def split: pylist.splits sum.splits)

lemma SampleFeatureMatrix_init_not_missing_metric:
  "SampleFeatureMatrix_init x sids fids \<noteq> Inl (Raise ValueError ''If d is None, metric must be provided.'')"
  using init_ids_not_missing_metric
  by (auto simp: SampleFeatureMatrix_init_def split: conv.splits ndarray.splits sum.splits)

lemma num_correct_fresh_not_missing_metric:
  "num_correct_fresh d0 ub \<noteq> Inl (Raise ValueError ''If d is None, metric must be provided.'')"
  by (auto simp: num_correct_fresh_def num_correct_dist_mat_def Let_def
      split: prod.splits sum.splits pyobj.splits ndarray.splits conv.splits if_splits)

lemma check_is_valid_labs_not_missing_metric:
  "check_is_valid_labs labs \<noteq> Inl (Raise ValueError ''If d is None, metric must be provided.'')"
  by (auto simp: check_is_valid_labs_def split: pylist.splits)

lemma SampleDistanceMatrix_init_not_missing_metric:
  "SampleDistanceMatrix_init pd x d (MStr s) sids fids nprocs
     \<noteq> Inl (Raise ValueError ''If d is None, metric must be provided.'')"
  using SampleFeatureMatrix_init_not_missing_metric[of x sids fids]
    init_d_not_missing_metric num_correct_fresh_not_missing_metric
  by (auto simp: SampleDistanceMatrix_init_def split: sum.splits)

text \<open>
  C9. When the distance matrix and the metric are both left out,
  \<^verbatim>\<open>SingleLabelClassifiedSamples\<close> behaves as with \<^verbatim>\<open>metric="correlation"\<close>: it never
  raises the missing-metric error, and when it succeeds the stored metric is
  \<^verbatim>\<open>"correlation"\<close> and the stored distances are the corrected result of the pairwise
  routine called with that metric. The parent constructor, called with no distances and
  the metric \<^verbatim>\<open>None\<close>, does raise the missing-metric error once its features are
  accepted.
\<close>

theorem default_metric_correlation:
  "SingleLabelClassifiedSamples_init pd x labs sids fids CNone None nprocs
     = SingleLabelClassifiedSamples_init pd x labs sids fids CNone (Some (MStr ''correlation''))
         nprocs
   \<and> SingleLabelClassifiedSamples_init pd x labs sids fids CNone None nprocs
       \<noteq> Inl (Raise ValueError ''If d is None, metric must be provided.'')
   \<and> (\<forall>self. SingleLabelClassifiedSamples_init pd x labs sids fids CNone None nprocs = Inr self
        \<longrightarrow> self_metric self = MStr ''correlation''
            \<and> (\<exists>d0. pd (self_x self) ''correlation''
                        (case nprocs of Conv k \<Rightarrow> max k 1 | _ \<Rightarrow> 1) = Inr d0
                     \<and> num_correct_fresh d0 CNone = Inr (self_d self)))
   \<and> SampleDistanceMatrix_init pd x CNone MNone sids fids nprocs
       = (case SampleFeatureMatrix_init x sids fids of
            Inl e \<Rightarrow> Inl e
          | Inr s \<Rightarrow> Inl (Raise ValueError ''If d is None, metric must be provided.''))"
proof (intro conjI allI impI)
  show "SingleLabelClassifiedSamples_init pd x labs sids fids CNone None nprocs
     = SingleLabelClassifiedSamples_init pd x labs sids fids CNone (Some (MStr ''correlation''))
         nprocs"
    by (simp add: SingleLabelClassifiedSamples_init_def)
next
  show "SingleLabelClassifiedSamples_init pd x labs sids fids CNone None nprocs
       \<noteq> Inl (Raise ValueError ''If d is None, metric must be provided.'')"
    using SampleDistanceMatrix_init_not_missing_metric[of pd x CNone "''correlation''" sids fids nprocs]
      check_is_valid_labs_not_missing_metric[of labs]
    by (auto simp: SingleLabelClassifiedSamples_init_def Let_def split: sum.splits)
next
  fix self
  assume a: "SingleLabelClassifiedSamples_init pd x labs sids fids CNone None nprocs = Inr self"
  from SingleLabelClassifiedSamples_init_Inr[OF a] obtain s where
    s: "SampleDistanceMatrix_init pd x CNone (MStr ''correlation'') sids fids nprocs = Inr s"
    and eq: "self_x self = self_x s" "self_d self = self_d s" "self_metric self = self_metric s"
    by auto
  from SampleDistanceMatrix_init_Inr[OF s] obtain s0 :: SampleFeatureMatrix and d0 where
    s0: "self_x s = self_x s0"
    and d0: "init_d pd (self_x s0) (shape0 (self_x s0)) CNone (MStr ''correlation'') nprocs = Inr d0"
    and nc: "num_correct_fresh d0 CNone = Inr (self_d s)"
    and m: "self_metric s = MStr ''correlation''"
    by blast
  from d0 have "pd (self_x s0) ''correlation'' (case nprocs of Conv k \<Rightarrow> max k 1 | _ \<Rightarrow> 1) = Inr d0"
    by (auto simp: init_d_def split: conv.splits sum.splits)
  with eq s0 nc m show "self_metric self = MStr ''correlation''"
    and "\<exists>d0. pd (self_x self) ''correlation'' (case nprocs of Conv k \<Rightarrow> max k 1 | _ \<Rightarrow> 1) = Inr d0
              \<and> num_correct_fresh d0 CNone = Inr (self_d self)"
    by auto
next
  show "SampleDistanceMatrix_init pd x CNone MNone sids fids nprocs
       = (case SampleFeatureMatrix_init x sids fids of
            Inl e \<Rightarrow> Inl e
          | Inr s \<Rightarrow> Inl (Raise ValueError ''If d is None, metric must be provided.''))"
    by (simp add: SampleDistanceMatrix_init_def init_d_def split: sum.splits)
qed

section \<open>Evaluation of the concrete index\<close>

lemma np_unique_aba: "np_unique [StrV ''a'', StrV ''b'', StrV ''a''] = [StrV ''a'', StrV ''b'']"
  by (simp add: np_unique_def less_eq_pyval_def)

lemma num_correct_fresh_zero3:
  "num_correct_fresh (ObjArray (NdArray2 3 3 [[0, 0, 0], [0, 0, 0], [0, 0, 0]])) CNone
   = Inr (ObjArray (NdArray2 3 3 [[0, 0, 0], [0, 0, 0], [0, 0, 0]]))"
  by (simp add: num_correct_fresh_CNone clamp_neg_def zero_diag_def symmetrize_def arr_T_def
      triu_assign_def upt_conv_Cons)

lemma check_is_valid_sfids_s123:
  "check_is_valid_sfids (LList [StrV ''s1'', StrV ''s2'', StrV ''s3'']) = Inr ()"
  by (simp add: check_is_valid_sfids_def is_valid_sfid_def is_uniq_np1darr_def)

lemma check_is_valid_labs_aba:
  "check_is_valid_labs (LList [StrV ''a'', StrV ''b'', StrV ''a'']) = Inr ()"
  by (simp add: check_is_valid_labs_def is_valid_lab_def)

lemma SampleDistanceMatrix_init_example:
  "SampleDistanceMatrix_init pd_zero (Conv (NdArray2 3 1 [[1], [2], [3]])) CNone
     (MStr ''correlation'') (LList [StrV ''s1'', StrV ''s2'', StrV ''s3'']) LNone CNone
   = Inr \<lparr>self_x = NdArray2 3 1 [[1], [2], [3]],
          self_sids = [StrV ''s1'', StrV ''s2'', StrV ''s3''],
          self_fids = [IntV 0],
          self_d = ObjArray (NdArray2 3 3 [[0, 0, 0], [0, 0, 0], [0, 0, 0]]),
          self_metric = MStr ''correlation''\<rparr>"
  by (simp add: SampleDistanceMatrix_init_def SampleFeatureMatrix_init_def init_ids_def
      init_d_def pd_zero_def check_is_valid_sfids_s123 range_ids_def numeral_3_eq_3
      num_correct_fresh_zero3[unfolded numeral_3_eq_3])

lemma SingleLabelClassifiedSamples_init_example:
  "SingleLabelClassifiedSamples_init pd_zero (Conv (NdArray2 3 1 [[1], [2], [3]]))
     (LList [StrV ''a'', StrV ''b'', StrV ''a''])
     (LList [StrV ''s1'', StrV ''s2'', StrV ''s3'']) LNone CNone None CNone
   = Inr example_index"
  apply (simp only: SingleLabelClassifiedSamples_init_def option.case sum.case
      SampleDistanceMatrix_init_example check_is_valid_labs_aba)
  apply (simp add: np_unique_aba sids_with_lab_def upt_conv_Cons example_index_def)
  done

theorem default_metric_correlation_witness:
  "SingleLabelClassifiedSamples_init pd_zero (Conv (NdArray2 3 1 [[1], [2], [3]]))
     (LList [StrV ''a'', StrV ''b'', StrV ''a''])
     (LList [StrV ''s1'', StrV ''s2'', StrV ''s3'']) LNone CNone None CNone = Inr example_index
   \<and> self_metric example_index = MStr ''correlation''"
proof -
  have e: "SingleLabelClassifiedSamples_init pd_zero (Conv (NdArray2 3 1 [[1], [2], [3]]))
     (LList [StrV ''a'', StrV ''b'', StrV ''a''])
     (LList [StrV ''s1'', StrV ''s2'', StrV ''s3'']) LNone CNone None CNone = Inr example_index"
    by (rule SingleLabelClassifiedSamples_init_example)
  have "\<forall>self. SingleLabelClassifiedSamples_init pd_zero (Conv (NdArray2 3 1 [[1], [2], [3]]))
     (LList [StrV ''a'', StrV ''b'', StrV ''a''])
     (LList [StrV ''s1'', StrV ''s2'', StrV ''s3'']) LNone CNone None CNone = Inr self
     \<longrightarrow> self_metric self = MStr ''correlation''"
    using default_metric_correlation[of pd_zero "Conv (NdArray2 3 1 [[1], [2], [3]])"
        "LList [StrV ''a'', StrV ''b'', StrV ''a'']"
        "LList [StrV ''s1'', StrV ''s2'', StrV ''s3'']" LNone CNone]
    by blast
  with e have "self_metric example_index = MStr ''correlation''" by blast
  with e show ?thesis by blast
qed

section \<open>Validation of the labels\<close>

lemma SingleLabelClassifiedSamples_init_succeeds:
  assumes "SampleDistanceMatrix_init pd x d
             (case metric of None \<Rightarrow> MStr ''correlation'' | Some m \<Rightarrow> m) sids fids nprocs = Inr s"
    and "check_is_valid_labs (LList xs) = Inr ()"
    and "length xs = length (self_sids s)"
  shows "\<exists>self. SingleLabelClassifiedSamples_init pd x (LList xs) sids fids d metric nprocs
                  = Inr self
              \<and> self_labs self = xs \<and> self_sids self = self_sids s"
  using assms by (simp add: SingleLabelClassifiedSamples_init_def Let_def)

text \<open>
  C6 (as the code has it). The constructor validates the labels with
  \<^verbatim>\<open>check_is_valid_labs\<close>, not with the validator of the ids: a label argument is accepted
  exactly when it is a non-empty list of one element type, int or str; repeated values
  are allowed. So the construction with such a list, duplicates or not, succeeds whenever
  the parent construction succeeds and there is one label per sample; and every
  constructed index went through this validation.
\<close>

theorem labs_validated_without_uniqueness:
  "(check_is_valid_labs labs = Inr () \<longleftrightarrow>
      (\<exists>xs. labs = LList xs \<and> xs \<noteq> []
            \<and> (\<forall>x\<in>set xs. \<forall>y\<in>set xs. type_of x = type_of y)
            \<and> (\<forall>x\<in>set xs. type_of x = TInt \<or> type_of x = TStr)))
   \<and> (\<forall>s xs. SampleDistanceMatrix_init pd x d
               (case metric of None \<Rightarrow> MStr ''correlation'' | Some m \<Rightarrow> m) sids fids nprocs
             = Inr s
           \<and> labs = LList xs \<and> xs \<noteq> []
           \<and> (\<forall>x\<in>set xs. \<forall>y\<in>set xs. type_of x = type_of y)
           \<and> (\<forall>x\<in>set xs. type_of x = TInt \<or> type_of x = TStr)
           \<and> length xs = length (self_sids s)
        \<longrightarrow> (\<exists>self. SingleLabelClassifiedSamples_init pd x labs sids fids d metric nprocs
                      = Inr self
                    \<and> self_labs self = xs \<and> self_sids self = self_sids s))
   \<and> (\<forall>self. SingleLabelClassifiedSamples_init pd x labs sids fids d metric nprocs = Inr self
        \<longrightarrow> check_is_valid_labs labs = Inr () \<and> self_labs self = the_list labs
            \<and> length (self_labs self) = length (self_sids self))"
proof (intro conjI allI impI)
  show "check_is_valid_labs labs = Inr () \<longleftrightarrow>
      (\<exists>xs. labs = LList xs \<and> xs \<noteq> []
            \<and> (\<forall>x\<in>set xs. \<forall>y\<in>set xs. type_of x = type_of y)
            \<and> (\<forall>x\<in>set xs. type_of x = TInt \<or> type_of x = TStr))"
  proof (cases labs)
    case LNone
    then show ?thesis by (simp add: check_is_valid_labs_def)
  next
    case (LList xs)
    show ?thesis unfolding LList check_is_valid_labs_LList by blast
  next
    case LOther
    then show ?thesis by (simp add: check_is_valid_labs_def)
  qed
next
  fix s :: SampleDistanceMatrix and xs
  assume a: "SampleDistanceMatrix_init pd x d
               (case metric of None \<Rightarrow> MStr ''correlation'' | Some m \<Rightarrow> m) sids fids nprocs
             = Inr s
           \<and> labs = LList xs \<and> xs \<noteq> []
           \<and> (\<forall>x\<in>set xs. \<forall>y\<in>set xs. type_of x = type_of y)
           \<and> (\<forall>x\<in>set xs. type_of x = TInt \<or> type_of x = TStr)
           \<and> length xs = length (self_sids s)"
  then have v: "check_is_valid_labs (LList xs) = Inr ()"
    unfolding check_is_valid_labs_LList by blast
  from a have l: "labs = LList xs" by blast
  from a have i: "SampleDistanceMatrix_init pd x d
               (case metric of None \<Rightarrow> MStr ''correlation'' | Some m \<Rightarrow> m) sids fids nprocs
             = Inr s" by blast
  from a have n: "length xs = length (self_sids s)" by blast
  show "\<exists>self. SingleLabelClassifiedSamples_init pd x labs sids fids d metric nprocs = Inr self
          \<and> self_labs self = xs \<and> self_sids self = self_sids s"
    unfolding l by (rule SingleLabelClassifiedSamples_init_succeeds[OF i v n])
next
  fix self
  assume a: "SingleLabelClassifiedSamples_init pd x labs sids fids d metric nprocs = Inr self"
  from SingleLabelClassifiedSamples_init_Inr[OF a]
  show "check_is_valid_labs labs = Inr ()" and "self_labs self = the_list labs"
    and "length (self_labs self) = length (self_sids self)"
    by auto
qed

theorem labs_validated_without_uniqueness_witness:
  "check_is_valid_labs (LList [StrV ''a'', StrV ''b'', StrV ''a'']) = Inr ()
   \<and> length [StrV ''a'', StrV ''b'', StrV ''a''] = length (self_sids example_index)
   \<and> self_labs example_index = [StrV ''a'', StrV ''b'', StrV ''a'']"
proof -
  have e: "SingleLabelClassifiedSamples_init pd_zero (Conv (NdArray2 3 1 [[1], [2], [3]]))
     (LList [StrV ''a'', StrV ''b'', StrV ''a''])
     (LList [StrV ''s1'', StrV ''s2'', StrV ''s3'']) LNone CNone None CNone = Inr example_index"
    by (rule SingleLabelClassifiedSamples_init_example)
  have "\<forall>self. SingleLabelClassifiedSamples_init pd_zero (Conv (NdArray2 3 1 [[1], [2], [3]]))
     (LList [StrV ''a'', StrV ''b'', StrV ''a''])
     (LList [StrV ''s1'', StrV ''s2'', StrV ''s3'']) LNone CNone None CNone = Inr self
        \<longrightarrow> check_is_valid_labs (LList [StrV ''a'', StrV ''b'', StrV ''a'']) = Inr ()
            \<and> self_labs self = the_list (LList [StrV ''a'', StrV ''b'', StrV ''a''])
            \<and> length (self_labs self) = length (self_sids self)"
    using labs_validated_without_uniqueness[of "LList [StrV ''a'', StrV ''b'', StrV ''a'']"
        pd_zero "Conv (NdArray2 3 1 [[1], [2], [3]])" CNone None
        "LList [StrV ''s1'', StrV ''s2'', StrV ''s3'']" LNone CNone]
    by blast
  with e have "check_is_valid_labs (LList [StrV ''a'', StrV ''b'', StrV ''a'']) = Inr ()
            \<and> self_labs example_index = the_list (LList [StrV ''a'', StrV ''b'', StrV ''a''])
            \<and> length (self_labs example_index) = length (self_sids example_index)"
    by blast
  then show ?thesis by auto
qed

theorem labs_duplicates_counterexample:
  "check_is_valid_sfids (LList [StrV ''a'', StrV ''b'', StrV ''a''])
     = Inl (Raise ValueError ''[sf]ids must not contain duplicated values'')
   \<and> SingleLabelClassifiedSamples_init pd_zero (Conv (NdArray2 3 1 [[1], [2], [3]]))
       (LList [StrV ''a'', StrV ''b'', StrV ''a''])
       (LList [StrV ''s1'', StrV ''s2'', StrV ''s3'']) LNone CNone None CNone
     = Inr example_index
   \<and> self_labs example_index = [StrV ''a'', StrV ''b'', StrV ''a'']"
proof -
  have "check_is_valid_sfids (LList [StrV ''a'', StrV ''b'', StrV ''a''])
     = Inl (Raise ValueError ''[sf]ids must not contain duplicated values'')"
    by (simp add: check_is_valid_sfids_def is_valid_sfid_def is_uniq_np1darr_def)
  moreover have "self_labs example_index = [StrV ''a'', StrV ''b'', StrV ''a'']"
    by (simp add: example_index_def)
  ultimately show ?thesis
    using SingleLabelClassifiedSamples_init_example by blast
qed

section \<open>The lookup tables of a constructed index\<close>

lemma update_fresh: "k \<notin> fst ` set al \<Longrightarrow> AList.update k v al = al @ [(k, v)]"
  by (induction al) auto

lemma fold_update_fresh:
  "distinct (map f xs) \<Longrightarrow> f ` set xs \<inter> fst ` set acc = {} \<Longrightarrow>
   fold (\<lambda>x lut. AList.update (f x) (g x) lut) xs acc = acc @ map (\<lambda>x. (f x, g x)) xs"
proof (induction xs arbitrary: acc)
  case Nil
  then show ?case by simp
next
  case (Cons x xs)
  from Cons.prems have fresh: "f x \<notin> fst ` set acc" by auto
  have step: "AList.update (f x) (g x) acc = acc @ [(f x, g x)]"
    using fresh by (rule update_fresh)
  from Cons.prems have d: "distinct (map f xs)" by simp
  from Cons.prems have "f ` set xs \<inter> fst ` set (acc @ [(f x, g x)]) = {}" by auto
  from Cons.IH[OF d this] show ?case by (simp add: step)
qed

lemma sorted_np_unique: "sorted (np_unique xs)"
  by (simp add: np_unique_def)

lemma distinct_np_unique: "distinct (np_unique xs)"
  by (simp add: np_unique_def)

lemma set_np_unique: "set (np_unique xs) = set xs"
  by (simp add: np_unique_def)

lemma sid_lut_fold:
  "fold (\<lambda>uniq_lab sid_lut. AList.update uniq_lab (sids_with_lab sids labs uniq_lab) sid_lut)
     (np_unique labs) []
   = map (\<lambda>u. (u, sids_with_lab sids labs u)) (np_unique labs)"
  using fold_update_fresh[of "\<lambda>u. u" "np_unique labs" "[]" "\<lambda>u. sids_with_lab sids labs u"]
  by (simp add: distinct_np_unique)

lemma zip_as_map_upt:
  "length xs = length ys \<Longrightarrow> zip xs ys = map (\<lambda>i. (xs ! i, ys ! i)) [0..<length xs]"
  by (rule nth_equalityI) simp_all

lemma lab_lut_fold:
  assumes "distinct sids" and "length sids = length labs"
  shows "fold (\<lambda>i lab_lut. AList.update (sids ! i) (labs ! i) lab_lut) [0..<length sids] []
         = zip sids labs"
proof -
  have "map (\<lambda>i. sids ! i) [0..<length sids] = sids" by (rule map_nth)
  with assms(1) have d: "distinct (map (\<lambda>i. sids ! i) [0..<length sids])" by simp
  have "fold (\<lambda>i lab_lut. AList.update (sids ! i) (labs ! i) lab_lut) [0..<length sids] []
        = [] @ map (\<lambda>i. (sids ! i, labs ! i)) [0..<length sids]"
    using d by (rule fold_update_fresh) simp
  then show ?thesis using assms(2) by (simp add: zip_as_map_upt)
qed

lemma init_ids_valid:
  assumes "init_ids ids n = Inr xs" and "0 < n"
  shows "check_is_valid_sfids (LList xs) = Inr ()"
proof (cases "ids = LNone")
  case True
  with assms(1) have xs: "xs = range_ids n" by (simp add: init_ids_def)
  have "xs \<noteq> []" using assms(2) xs by (simp add: range_ids_def)
  moreover have "\<forall>x\<in>set xs. type_of x = TInt" using xs by (auto simp: range_ids_def)
  moreover have "distinct xs" using xs by (simp add: distinct_range_ids)
  ultimately show ?thesis unfolding check_is_valid_sfids_LList by metis
next
  case False
  with init_ids_Inr[OF assms(1)] have v: "check_is_valid_sfids ids = Inr ()"
    and x: "xs = the_list ids" by simp_all
  from check_is_valid_sfids_Inr[OF v] have "ids = LList (the_list ids)" by simp
  with v x show ?thesis by simp
qed

text \<open>What the constructor establishes, in terms of the stored ids and labels.\<close>

lemma SingleLabelClassifiedSamples_init_inv:
  assumes "SingleLabelClassifiedSamples_init pd x labs sids fids d metric nprocs = Inr self"
  shows "index_inv self"
proof -
  from SingleLabelClassifiedSamples_init_Inr[OF assms] obtain s :: SampleDistanceMatrix where
    s: "SampleDistanceMatrix_init pd x d
          (case metric of None \<Rightarrow> MStr ''correlation'' | Some m \<Rightarrow> m) sids fids nprocs = Inr s"
    and v: "check_is_valid_labs labs = Inr ()"
    and ss: "self_sids self = self_sids s"
    and l: "self_labs self = the_list labs"
    and len: "length (self_sids self) = length (self_labs self)"
    and sl: "self_sid_lut self =
               fold (\<lambda>uniq_lab sid_lut.
                       AList.update uniq_lab
                         (sids_with_lab (self_sids self) (self_labs self) uniq_lab) sid_lut)
                 (np_unique (self_labs self)) []"
    and ll: "self_lab_lut self =
               fold (\<lambda>i lab_lut.
                       AList.update (self_sids self ! i) (self_labs self ! i) lab_lut)
                 [0..<length (self_sids self)] []"
    by blast
  from SampleDistanceMatrix_init_Inr[OF s] obtain s0 :: SampleFeatureMatrix where
    s0: "SampleFeatureMatrix_init x sids fids = Inr s0" and ss0: "self_sids s = self_sids s0"
    by blast
  from SampleFeatureMatrix_init_Inr[OF s0] obtain r c where
    rc: "r * c \<noteq> 0" and ids: "init_ids sids r = Inr (self_sids s0)"
    by blast
  from rc have "0 < r" by simp
  from init_ids_valid[OF ids this] have valid: "check_is_valid_sfids (LList (self_sids self)) = Inr ()"
    by (simp add: ss ss0)
  from check_is_valid_sfids_Inr[OF valid] have dist: "distinct (self_sids self)" by simp
  have labs_valid: "check_is_valid_labs (LList (self_labs self)) = Inr ()"
  proof (cases labs)
    case (LList xs)
    with v l show ?thesis by simp
  qed (use v in \<open>simp_all add: check_is_valid_labs_def\<close>)
  have sl': "self_sid_lut self =
          map (\<lambda>u. (u, sids_with_lab (self_sids self) (self_labs self) u))
            (np_unique (self_labs self))"
    unfolding sl by (rule sid_lut_fold)
  have ll': "self_lab_lut self = zip (self_sids self) (self_labs self)"
    unfolding ll by (rule lab_lut_fold[OF dist len])
  show ?thesis
    unfolding index_inv_def
    using valid labs_valid len sl' ll' by blast
qed

section \<open>Properties of the lookups\<close>

lemma map_err_Inr:
  "(\<And>x. x \<in> set xs \<Longrightarrow> f x = Inr (g x)) \<Longrightarrow> map_err f xs = Inr (map g xs)"
  by (induction xs) simp_all

lemma map_of_tabulate: "u \<in> set ks \<Longrightarrow> map_of (map (\<lambda>u. (u, f u)) ks) u = Some (f u)"
  by (induction ks) auto

lemma sids_with_lab_positions:
  assumes "length sids = length labs"
  shows "sids_with_lab sids labs u =
         map (\<lambda>i. sids ! i) (filter (\<lambda>i. labs ! i = u) [0..<length sids])"
proof -
  have "filter (\<lambda>(s, l). l = u) (map (\<lambda>i. (sids ! i, labs ! i)) [0..<length sids])
        = map (\<lambda>i. (sids ! i, labs ! i)) (filter (\<lambda>i. labs ! i = u) [0..<length sids])"
    by (simp add: filter_map comp_def)
  then show ?thesis
    by (simp add: sids_with_lab_def zip_as_map_upt[OF assms] comp_def)
qed

lemma count_positions:
  "length (filter (\<lambda>i. labs ! i = u) [0..<length labs]) = count_list labs u"
proof -
  have "length (filter (\<lambda>i. labs ! i = u) [0..<length labs])
        = length (filter (\<lambda>y. y = u) (map (\<lambda>i. labs ! i) [0..<length labs]))"
    by (simp add: filter_map comp_def)
  also have "\<dots> = length (filter (\<lambda>y. y = u) labs)" by (simp add: map_nth)
  also have "\<dots> = count_list labs u"
    by (induction labs) auto
  finally show ?thesis .
qed

lemma dict_get_sid_lut:
  assumes "index_inv self" and "u \<in> set (self_labs self)"
  shows "dict_get (self_sid_lut self) u
         = Inr (sids_with_lab (self_sids self) (self_labs self) u)"
proof -
  from assms(1) have "self_sid_lut self =
          map (\<lambda>u. (u, sids_with_lab (self_sids self) (self_labs self) u))
            (np_unique (self_labs self))"
    by (simp add: index_inv_def)
  moreover from assms(2) have "u \<in> set (np_unique (self_labs self))"
    by (simp add: set_np_unique)
  ultimately show ?thesis by (simp add: dict_get_def map_of_tabulate)
qed

lemma dict_get_lab_lut:
  assumes "index_inv self" and "i < length (self_sids self)"
  shows "dict_get (self_lab_lut self) (self_sids self ! i) = Inr (self_labs self ! i)"
proof -
  from assms(1) have l: "self_lab_lut self = zip (self_sids self) (self_labs self)"
    and len: "length (self_sids self) = length (self_labs self)"
    and v: "check_is_valid_sfids (LList (self_sids self)) = Inr ()"
    by (simp_all add: index_inv_def)
  from check_is_valid_sfids_Inr[OF v] have d: "distinct (self_sids self)" by simp
  from assms(2) len have "i < length (self_labs self)" by simp
  from map_of_zip_nth[OF len d this] show ?thesis by (simp add: dict_get_def l)
qed

text \<open>
  C7. For a label \<open>L\<close> of a constructed index, \<^verbatim>\<open>labs_to_sids([L])\<close> returns one bucket:
  the ids of the samples whose label is \<open>L\<close>, in their order; and \<^verbatim>\<open>sids_to_labs\<close> on
  that bucket returns \<open>L\<close> once for every sample labelled \<open>L\<close>.
\<close>

theorem labs_sids_round_trip:
  assumes "SingleLabelClassifiedSamples_init pd x labs sids fids d metric nprocs = Inr self"
    and "L \<in> set (self_labs self)"
  shows "labs_to_sids self [L] =
           Inr [map (\<lambda>i. self_sids self ! i)
                  (filter (\<lambda>i. self_labs self ! i = L) [0..<length (self_sids self)])]
       \<and> sids_to_labs self
           (map (\<lambda>i. self_sids self ! i)
              (filter (\<lambda>i. self_labs self ! i = L) [0..<length (self_sids self)]))
         = Inr (replicate (count_list (self_labs self) L) L)"
proof -
  let ?S = "self_sids self" and ?Lb = "self_labs self"
  let ?I = "filter (\<lambda>i. ?Lb ! i = L) [0..<length ?S]"
  have inv: "index_inv self" using assms(1) by (rule SingleLabelClassifiedSamples_init_inv)
  then have len: "length ?S = length ?Lb" by (simp add: index_inv_def)
  have "labs_to_sids self [L] = Inr [sids_with_lab ?S ?Lb L]"
    by (simp add: labs_to_sids_def dict_get_sid_lut[OF inv assms(2)])
  then have one: "labs_to_sids self [L] = Inr [map (\<lambda>i. ?S ! i) ?I]"
    by (simp add: sids_with_lab_positions[OF len])
  have "map_err (\<lambda>s. dict_get (self_lab_lut self) s) (map (\<lambda>i. ?S ! i) ?I)
        = Inr (map (\<lambda>s. L) (map (\<lambda>i. ?S ! i) ?I))"
  proof (rule map_err_Inr)
    fix s assume "s \<in> set (map (\<lambda>i. ?S ! i) ?I)"
    then obtain i where i: "i < length ?S" "?Lb ! i = L" "s = ?S ! i" by auto
    from dict_get_lab_lut[OF inv i(1)] i(2,3)
    show "dict_get (self_lab_lut self) s = Inr L" by simp
  qed
  moreover have "map (\<lambda>s. L) (map (\<lambda>i. ?S ! i) ?I) = replicate (count_list ?Lb L) L"
    using count_positions[of ?Lb L] by (simp add: len map_replicate_const)
  ultimately have two: "sids_to_labs self (map (\<lambda>i. ?S ! i) ?I)
      = Inr (replicate (count_list ?Lb L) L)"
    by (simp add: sids_to_labs_def)
  from one two show ?thesis by blast
qed

theorem labs_sids_round_trip_witness:
  "SingleLabelClassifiedSamples_init pd_zero (Conv (NdArray2 3 1 [[1], [2], [3]]))
     (LList [StrV ''a'', StrV ''b'', StrV ''a''])
     (LList [StrV ''s1'', StrV ''s2'', StrV ''s3'']) LNone CNone None CNone = Inr example_index
   \<and> StrV ''a'' \<in> set (self_labs example_index)
   \<and> labs_to_sids example_index [StrV ''a''] = Inr [[StrV ''s1'', StrV ''s3'']]
   \<and> sids_to_labs example_index [StrV ''s1'', StrV ''s3''] = Inr [StrV ''a'', StrV ''a'']"
proof -
  have m: "StrV ''a'' \<in> set (self_labs example_index)" by (simp add: example_index_def)
  have f: "map (\<lambda>i. self_sids example_index ! i)
         (filter (\<lambda>i. self_labs example_index ! i = StrV ''a'')
            [0..<length (self_sids example_index)]) = [StrV ''s1'', StrV ''s3'']"
    by (simp add: example_index_def upt_conv_Cons)
  have c: "replicate (count_list (self_labs example_index) (StrV ''a'')) (StrV ''a'')
        = [StrV ''a'', StrV ''a'']"
    by (simp add: example_index_def)
  from labs_sids_round_trip[OF SingleLabelClassifiedSamples_init_example m]
  show ?thesis
    unfolding f c using SingleLabelClassifiedSamples_init_example m by blast
qed

section \<open>The scenarios\<close>

lemma SingleLabelClassifiedSamples_init_given:
  assumes "SingleLabelClassifiedSamples_init pd x (LList ls) (LList ss) fids d metric nprocs
           = Inr self"
  shows "self_sids self = ss" and "self_labs self = ls"
    and "self_sid_lut self = map (\<lambda>u. (u, sids_with_lab ss ls u)) (np_unique ls)"
    and "self_lab_lut self = zip ss ls"
proof -
  from SingleLabelClassifiedSamples_init_Inr[OF assms] obtain s :: SampleDistanceMatrix where
    s: "SampleDistanceMatrix_init pd x d
          (case metric of None \<Rightarrow> MStr ''correlation'' | Some m \<Rightarrow> m) (LList ss) fids nprocs
        = Inr s"
    and ss: "self_sids self = self_sids s"
    and l: "self_labs self = the_list (LList ls)"
    by blast
  from SampleDistanceMatrix_init_Inr[OF s] obtain s0 :: SampleFeatureMatrix where
    s0: "SampleFeatureMatrix_init x (LList ss) fids = Inr s0" and ss0: "self_sids s = self_sids s0"
    by blast
  from SampleFeatureMatrix_init_Inr[OF s0] obtain r where
    ids: "init_ids (LList ss) r = Inr (self_sids s0)"
    by blast
  from init_ids_Inr[OF ids] have "self_sids s0 = ss" by simp
  with ss ss0 show a: "self_sids self = ss" by simp
  from l show b: "self_labs self = ls" by simp
  have inv: "index_inv self" using assms by (rule SingleLabelClassifiedSamples_init_inv)
  then show "self_sid_lut self = map (\<lambda>u. (u, sids_with_lab ss ls u)) (np_unique ls)"
    and "self_lab_lut self = zip ss ls"
    by (simp_all add: index_inv_def a b)
qed

lemma le_StrV_simps:
  "StrV s \<le> StrV t \<longleftrightarrow> s \<le> t"
  by (simp add: less_eq_pyval_def)





lemma concat_and_check_scenario:
  assumes "self_sids self = [StrV ''s1'', StrV ''s2'', StrV ''s3'']"
    and "self_labs self = [StrV ''a'', StrV ''b'', StrV ''a'']"
  shows "concat_and_check self [[StrV ''s1'', StrV ''s3''], [StrV ''s2'']]
           [[StrV ''a'', StrV ''a''], [StrV ''b'']]
         = Inr ([StrV ''s1'', StrV ''s3'', StrV ''s2''], [StrV ''a'', StrV ''a'', StrV ''b''])"
    and "concat_and_check self [[StrV ''s3'', StrV ''s1''], [StrV ''s2'']]
           [[StrV ''a'', StrV ''a''], [StrV ''b'']]
         = Inr ([StrV ''s3'', StrV ''s1'', StrV ''s2''], [StrV ''a'', StrV ''a'', StrV ''b''])"
  by (simp_all add: concat_and_check_def assms np_argsort_def le_StrV_simps upt_conv_Cons)

lemma reorder_by_ref_scenario:
  "reorder_by_ref (LList [StrV ''s3'', StrV ''s2'', StrV ''s1''])
     [[StrV ''s1'', StrV ''s3''], [StrV ''s2'']] [[StrV ''a'', StrV ''a''], [StrV ''b'']]
   = Inr ([[StrV ''s3'', StrV ''s1''], [StrV ''s2'']], [[StrV ''a'', StrV ''a''], [StrV ''b'']])"
  by (simp add: reorder_by_ref_def check_is_valid_sfids_def is_valid_sfid_def
      is_uniq_np1darr_def sort_flat_sids_def)

text \<open>
  C3. For an index constructed with the samples \<open>s1, s2, s3\<close> and the labels \<open>a, b, a\<close>:
  without a reference order \<^verbatim>\<open>lab_sorted_sids\<close> returns the samples \<open>s1, s3, s2\<close> with the
  labels \<open>a, a, b\<close>; with the reference order \<open>s3, s2, s1\<close> it returns \<open>s3, s1, s2\<close> with
  \<open>a, a, b\<close>. In the second call the bucket of \<open>a\<close> is reordered to \<open>s3, s1\<close>, the
  representatives are \<open>s3\<close> and \<open>s2\<close>, and the order of the labels stays \<open>a, b\<close>.
\<close>

theorem lab_sorted_sids_scenarios:
  assumes "SingleLabelClassifiedSamples_init pd x (LList [StrV ''a'', StrV ''b'', StrV ''a''])
             (LList [StrV ''s1'', StrV ''s2'', StrV ''s3'']) fids d metric nprocs = Inr self"
  shows "lab_sorted_sids self LNone
           = Inr ([StrV ''s1'', StrV ''s3'', StrV ''s2''], [StrV ''a'', StrV ''a'', StrV ''b''])
       \<and> lab_sorted_sids self (LList [StrV ''s3'', StrV ''s2'', StrV ''s1''])
           = Inr ([StrV ''s3'', StrV ''s1'', StrV ''s2''], [StrV ''a'', StrV ''a'', StrV ''b''])
       \<and> map_err (\<lambda>iter_lab. dict_get (self_sid_lut self) iter_lab)
             (sort (map fst (self_sid_lut self)))
           = Inr [[StrV ''s1'', StrV ''s3''], [StrV ''s2'']]
       \<and> sort_flat_sids [StrV ''s1'', StrV ''s3''] [StrV ''s3'', StrV ''s2'', StrV ''s1'']
           = [StrV ''s3'', StrV ''s1'']
       \<and> map_err first [[StrV ''s3'', StrV ''s1''], [StrV ''s2'']] = Inr [StrV ''s3'', StrV ''s2'']
       \<and> reorder_by_ref (LList [StrV ''s3'', StrV ''s2'', StrV ''s1''])
             [[StrV ''s1'', StrV ''s3''], [StrV ''s2'']] [[StrV ''a'', StrV ''a''], [StrV ''b'']]
           = Inr ([[StrV ''s3'', StrV ''s1''], [StrV ''s2'']],
                  [[StrV ''a'', StrV ''a''], [StrV ''b'']])"
proof -
  note f = SingleLabelClassifiedSamples_init_given[OF assms]
  have lut: "self_sid_lut self
      = [(StrV ''a'', [StrV ''s1'', StrV ''s3'']), (StrV ''b'', [StrV ''s2''])]"
    by (simp add: f(3) np_unique_aba sids_with_lab_def)
  have keys: "sort (map fst (self_sid_lut self)) = [StrV ''a'', StrV ''b'']"
    by (simp add: lut le_StrV_simps)
  have buckets: "map_err (\<lambda>iter_lab. dict_get (self_sid_lut self) iter_lab)
             (sort (map fst (self_sid_lut self)))
           = Inr [[StrV ''s1'', StrV ''s3''], [StrV ''s2'']]"
    by (simp add: keys) (simp add: lut dict_get_def)
  have one: "lab_sorted_sids self LNone
           = Inr ([StrV ''s1'', StrV ''s3'', StrV ''s2''], [StrV ''a'', StrV ''a'', StrV ''b''])"
    unfolding lab_sorted_sids_def Let_def buckets
    by (simp add: keys concat_and_check_scenario(1)[OF f(1) f(2)])
  have two: "lab_sorted_sids self (LList [StrV ''s3'', StrV ''s2'', StrV ''s1''])
           = Inr ([StrV ''s3'', StrV ''s1'', StrV ''s2''], [StrV ''a'', StrV ''a'', StrV ''b''])"
    unfolding lab_sorted_sids_def Let_def buckets
    by (simp add: keys reorder_by_ref_scenario concat_and_check_scenario(2)[OF f(1) f(2)])
  have three: "sort_flat_sids [StrV ''s1'', StrV ''s3''] [StrV ''s3'', StrV ''s2'', StrV ''s1'']
           = [StrV ''s3'', StrV ''s1'']"
    by (simp add: sort_flat_sids_def)
  have four: "map_err first [[StrV ''s3'', StrV ''s1''], [StrV ''s2'']]
      = Inr [StrV ''s3'', StrV ''s2'']"
    by simp
  from one two buckets three four reorder_by_ref_scenario show ?thesis by blast
qed

theorem lab_sorted_sids_scenarios_witness:
  "lab_sorted_sids example_index LNone
     = Inr ([StrV ''s1'', StrV ''s3'', StrV ''s2''], [StrV ''a'', StrV ''a'', StrV ''b''])
   \<and> lab_sorted_sids example_index (LList [StrV ''s3'', StrV ''s2'', StrV ''s1''])
     = Inr ([StrV ''s3'', StrV ''s1'', StrV ''s2''], [StrV ''a'', StrV ''a'', StrV ''b''])"
  using lab_sorted_sids_scenarios[OF SingleLabelClassifiedSamples_init_example] by blast

section \<open>Properties of lab_sorted_sids\<close>

subsection \<open>Lists, multisets and sorting\<close>

lemma mset_eq_left_inverse:
  assumes "\<And>u. u \<in> set xs \<union> set ys \<Longrightarrow> g (f u) = u"
    and "mset (map f xs) = mset (map f ys)"
  shows "mset xs = mset ys"
proof -
  have "map g (map f xs) = xs" using assms(1) by (simp add: map_idI)
  moreover have "map g (map f ys) = ys" using assms(1) by (simp add: map_idI)
  moreover have "mset (map g (map f xs)) = mset (map g (map f ys))"
    using assms(2) by (metis mset_map)
  ultimately show ?thesis by simp
qed

lemma mset_filter_mem:
  assumes "distinct r" and "distinct b" and "set b \<subseteq> set r"
  shows "mset (filter (\<lambda>x. x \<in> set b) r) = mset b"
proof -
  have "distinct (filter (\<lambda>x. x \<in> set b) r)" using assms(1) by simp
  moreover have "set (filter (\<lambda>x. x \<in> set b) r) = set b" using assms(3) by auto
  ultimately show ?thesis using assms(2) by (metis set_eq_iff_mset_eq_distinct)
qed

lemma sum_list_indicator:
  "distinct ks \<Longrightarrow>
   (\<Sum>k\<leftarrow>ks. if a = k then {#z#} else {#}) = (if a \<in> set ks then {#z#} else {#})"
  by (induction ks) auto

lemma mset_buckets:
  assumes "distinct ks" and "\<And>z. z \<in> set zs \<Longrightarrow> key z \<in> set ks"
  shows "(\<Sum>k\<leftarrow>ks. mset (filter (\<lambda>z. key z = k) zs)) = mset zs"
  using assms(2)
proof (induction zs)
  case Nil
  show ?case by (induction ks) simp_all
next
  case (Cons z zs)
  have "(\<Sum>k\<leftarrow>ks. mset (filter (\<lambda>z. key z = k) (z # zs)))
        = (\<Sum>k\<leftarrow>ks. (if key z = k then {#z#} else {#}) + mset (filter (\<lambda>z. key z = k) zs))"
    by (rule arg_cong[where f = sum_list]) (rule map_cong, simp_all)
  also have "\<dots> = (\<Sum>k\<leftarrow>ks. if key z = k then {#z#} else {#})
                  + (\<Sum>k\<leftarrow>ks. mset (filter (\<lambda>z. key z = k) zs))"
    by (rule sum_list_addf)
  also have "(\<Sum>k\<leftarrow>ks. if key z = k then {#z#} else {#}) = {#z#}"
    using Cons.prems[of z] by (simp add: sum_list_indicator[OF assms(1)])
  also have "(\<Sum>k\<leftarrow>ks. mset (filter (\<lambda>z. key z = k) zs)) = mset zs"
    using Cons.prems by (intro Cons.IH) simp
  finally show ?case by simp
qed

lemma filter_key_singleton:
  "distinct (map f xs) \<Longrightarrow> k \<in> set xs \<Longrightarrow> filter (\<lambda>x. f k = f x) xs = [k]"
proof (induction xs)
  case Nil
  then show ?case by simp
next
  case (Cons x xs)
  show ?case
  proof (cases "k = x")
    case True
    have "filter (\<lambda>y. f x = f y) xs = []"
      using Cons.prems(1) by (auto simp: filter_empty_conv)
    with True show ?thesis by simp
  next
    case False
    with Cons.prems have k: "k \<in> set xs" and d: "distinct (map f xs)" by simp_all
    from Cons.prems(1) have "f x \<notin> f ` set xs" by simp
    with k have "f k \<noteq> f x" by (metis imageI)
    with Cons.IH[OF d k] show ?thesis by simp
  qed
qed

lemma sort_key_mset_eq:
  assumes "mset ps = mset qs" and "distinct (map f qs)"
  shows "sort_key f ps = sort_key f qs"
proof (rule properties_for_sort_key)
  show "mset (sort_key f qs) = mset ps" using assms(1) by simp
  show "sorted (map f (sort_key f qs))" by simp
  fix k assume "k \<in> set (sort_key f qs)"
  then have kq: "k \<in> set qs" by simp
  have "set ps = set qs" using assms(1) by (rule mset_eq_setD)
  with kq have kp: "k \<in> set ps" by simp
  have "mset (map f ps) = mset (map f qs)" using assms(1) by simp
  with assms(2) have dp: "distinct (map f ps)" by (metis mset_eq_imp_distinct_iff)
  have ds: "distinct (map f (sort_key f qs))"
    using assms(2) by (metis distinct_map distinct_sort set_sort)
  from kq have ks: "k \<in> set (sort_key f qs)" by simp
  show "filter (\<lambda>x. f k = f x) (sort_key f qs) = filter (\<lambda>x. f k = f x) ps"
    by (simp only: filter_key_singleton[OF ds ks] filter_key_singleton[OF dp kp])
qed

lemma insort_key_map:
  "insort_key f (g x) (map g xs) = map g (insort_key (\<lambda>y. f (g y)) x xs)"
  by (induction xs) simp_all

lemma sort_key_map: "sort_key f (map g xs) = map g (sort_key (\<lambda>y. f (g y)) xs)"
  by (induction xs) (simp_all add: insort_key_map)

lemma argsort_zip:
  assumes "length xs = length ys"
  shows "map (\<lambda>i. ys ! i) (np_argsort xs) = map snd (sort_key fst (zip xs ys))"
proof -
  have "sort_key fst (zip xs ys)
        = map (\<lambda>i. (xs ! i, ys ! i)) (sort_key (\<lambda>i. xs ! i) [0..<length xs])"
    by (simp add: zip_as_map_upt[OF assms] sort_key_map)
  then show ?thesis by (simp add: np_argsort_def comp_def)
qed

lemma zip_replicate_tag: "zip xs (replicate (length xs) u) = map (\<lambda>s. (s, u)) xs"
  by (simp add: zip_replicate2)

lemma zip_concat_tagged:
  assumes "\<And>u. u \<in> set us \<Longrightarrow> length (b u) = n u"
  shows "zip (concat (map b us)) (concat (map (\<lambda>u. replicate (n u) u) us))
           = concat (map (\<lambda>u. map (\<lambda>s. (s, u)) (b u)) us)
       \<and> length (concat (map b us)) = length (concat (map (\<lambda>u. replicate (n u) u) us))"
  using assms
proof (induction us)
  case Nil
  show ?case by simp
next
  case (Cons u us)
  let ?X = "concat (map b us)" and ?Y = "concat (map (\<lambda>u. replicate (n u) u) us)"
  have l: "length (b u) = n u" using Cons.prems by simp
  have z: "zip (b u) (replicate (n u) u) = map (\<lambda>s. (s, u)) (b u)"
    using zip_replicate_tag[of "b u" u] by (simp only: l)
  have "\<And>v. v \<in> set us \<Longrightarrow> length (b v) = n v" using Cons.prems by simp
  from Cons.IH[OF this] have ih1: "zip ?X ?Y = concat (map (\<lambda>u. map (\<lambda>s. (s, u)) (b u)) us)"
    and ih2: "length ?X = length ?Y"
    by blast+
  have "zip (b u @ ?X) (replicate (n u) u @ ?Y) = zip (b u) (replicate (n u) u) @ zip ?X ?Y"
    by (rule zip_append) (simp add: l)
  then have one: "zip (b u @ ?X) (replicate (n u) u @ ?Y)
      = map (\<lambda>s. (s, u)) (b u) @ concat (map (\<lambda>u. map (\<lambda>s. (s, u)) (b u)) us)"
    by (simp only: z ih1)
  have two: "length (b u @ ?X) = length (replicate (n u) u @ ?Y)"
    by (simp only: length_append ih2 l length_replicate)
  from one two show ?case by (simp only: list.map concat.simps) 
qed

lemma mset_concat_map: "mset (concat (map h us)) = sum_list (map (\<lambda>u. mset (h u)) us)"
  by (induction us) simp_all

lemma sum_list_mset_cong:
  assumes "mset us = mset ks" and "\<And>u. u \<in> set ks \<Longrightarrow> F u = G u"
  shows "sum_list (map F us) = (sum_list (map G ks) :: 'b multiset)"
proof -
  have "sum_list (map F us) = sum_mset (mset (map F us))" by (simp only: sum_mset_sum_list)
  also have "mset (map F us) = image_mset F (mset ks)" by (simp only: mset_map assms(1))
  also have "image_mset F (mset ks) = image_mset G (mset ks)"
    by (rule image_mset_cong) (simp add: assms(2))
  also have "image_mset G (mset ks) = mset (map G ks)" by (simp only: mset_map)
  also have "sum_mset (mset (map G ks)) = sum_list (map G ks)" by (simp only: sum_mset_sum_list)
  finally show ?thesis .
qed

lemma mset_tagged_cong:
  assumes "mset us = mset ks" and "\<And>u. u \<in> set ks \<Longrightarrow> mset (b u) = mset (c u)"
  shows "mset (concat (map (\<lambda>u. map (\<lambda>s. (s, u)) (b u)) us))
         = mset (concat (map (\<lambda>u. map (\<lambda>s. (s, u)) (c u)) ks))"
proof -
  have "\<And>u. u \<in> set ks \<Longrightarrow>
      mset (map (\<lambda>s. (s, u)) (b u)) = mset (map (\<lambda>s. (s, u)) (c u))"
    using assms(2) by (simp only: mset_map)
  with assms(1) have "sum_list (map (\<lambda>u. mset (map (\<lambda>s. (s, u)) (b u))) us)
      = sum_list (map (\<lambda>u. mset (map (\<lambda>s. (s, u)) (c u))) ks)"
    by (rule sum_list_mset_cong)
  then show ?thesis by (simp only: mset_concat_map)
qed

subsection \<open>The buckets of an index\<close>

lemma tagged_bucket:
  "map (\<lambda>s. (s, u)) (sids_with_lab sids labs u) = filter (\<lambda>z. snd z = u) (zip sids labs)"
proof -
  have a: "map (\<lambda>s. (s, u)) (map fst (filter (\<lambda>z. snd z = u) zs)) = filter (\<lambda>z. snd z = u) zs"
    for zs :: "(pyval \<times> pyval) list"
    by (induction zs) auto
  have b: "(\<lambda>(s, l). l = u) = (\<lambda>z. snd z = u)" by auto
  show ?thesis unfolding sids_with_lab_def b by (rule a)
qed

lemma pairs_partition:
  "mset (concat (map (\<lambda>u. map (\<lambda>s. (s, u)) (sids_with_lab sids labs u)) (np_unique labs)))
   = mset (zip sids labs)"
proof -
  have "\<And>z. z \<in> set (zip sids labs) \<Longrightarrow> snd z \<in> set (np_unique labs)"
    by (auto simp: set_np_unique dest: set_zip_rightD)
  with distinct_np_unique[of labs]
  have "(\<Sum>k\<leftarrow>np_unique labs. mset (filter (\<lambda>z. snd z = k) (zip sids labs)))
        = mset (zip sids labs)"
    by (rule mset_buckets)
  then show ?thesis by (simp only: mset_concat_map tagged_bucket)
qed

lemma pairs_postconditions:
  assumes "length os = length ol" and "length S = length Lb" and "distinct S"
    and "mset (zip os ol) = mset (zip S Lb)"
  shows "mset os = mset S" and "mset ol = mset Lb"
    and "sort_key fst (zip os ol) = sort_key fst (zip S Lb)"
    and "sort os = sort S" and "sort ol = sort Lb"
    and "map (\<lambda>i. ol ! i) (np_argsort os) = map (\<lambda>i. Lb ! i) (np_argsort S)"
proof -
  have "mset (map fst (zip os ol)) = mset (map fst (zip S Lb))"
    using assms(4) by (metis mset_map)
  then show a: "mset os = mset S" using assms(1,2) by simp
  have "mset (map snd (zip os ol)) = mset (map snd (zip S Lb))"
    using assms(4) by (metis mset_map)
  then show b: "mset ol = mset Lb" using assms(1,2) by simp
  have "distinct (map fst (zip S Lb))" using assms(2,3) by simp
  with assms(4) show c: "sort_key fst (zip os ol) = sort_key fst (zip S Lb)"
    by (rule sort_key_mset_eq)
  have "sort S = sort os" by (rule properties_for_sort) (simp_all add: a)
  then show "sort os = sort S" by simp
  have "sort Lb = sort ol" by (rule properties_for_sort) (simp_all add: b)
  then show "sort ol = sort Lb" by simp
  show "map (\<lambda>i. ol ! i) (np_argsort os) = map (\<lambda>i. Lb ! i) (np_argsort S)"
    by (simp only: argsort_zip[OF assms(1)] argsort_zip[OF assms(2)] c)
qed

lemma index_inv_distinct: "index_inv self \<Longrightarrow> distinct (self_sids self)"
  using check_is_valid_sfids_Inr[of "LList (self_sids self)" "()"]
  by (simp add: index_inv_def)

lemma index_inv_length: "index_inv self \<Longrightarrow> length (self_sids self) = length (self_labs self)"
  by (simp add: index_inv_def)

lemma index_inv_labs_nonempty: "index_inv self \<Longrightarrow> self_labs self \<noteq> []"
  by (simp add: index_inv_def check_is_valid_labs_unfold)

lemma concat_and_check_ok:
  assumes "index_inv self" and "bs \<noteq> []" and "ls \<noteq> []"
    and "length (concat bs) = length (concat ls)"
    and "mset (zip (concat bs) (concat ls)) = mset (zip (self_sids self) (self_labs self))"
  shows "concat_and_check self bs ls = Inr (concat bs, concat ls)"
proof -
  note p = pairs_postconditions[OF assms(4) index_inv_length[OF assms(1)]
      index_inv_distinct[OF assms(1)] assms(5)]
  show ?thesis
    unfolding concat_and_check_def Let_def
    by (simp only: assms(2,3) p(4) p(5) p(6) if_False simp_thms)
qed

lemma sort_np_unique: "sort (np_unique xs) = np_unique xs"
  by (rule sorted_sort_id) (rule sorted_np_unique)

lemma index_keys:
  assumes "index_inv self"
  shows "sort (map fst (self_sid_lut self)) = np_unique (self_labs self)"
proof -
  from assms have "map fst (self_sid_lut self) = np_unique (self_labs self)"
    by (simp add: index_inv_def comp_def)
  then show ?thesis by (simp only: sort_np_unique)
qed

lemma index_buckets:
  assumes "index_inv self"
  shows "map_err (\<lambda>iter_lab. dict_get (self_sid_lut self) iter_lab) (np_unique (self_labs self))
         = Inr (map (\<lambda>u. sids_with_lab (self_sids self) (self_labs self) u)
                  (np_unique (self_labs self)))"
proof (rule map_err_Inr)
  fix u assume "u \<in> set (np_unique (self_labs self))"
  then have "u \<in> set (self_labs self)" by (simp add: set_np_unique)
  with assms show "dict_get (self_sid_lut self) u
      = Inr (sids_with_lab (self_sids self) (self_labs self) u)"
    by (rule dict_get_sid_lut)
qed

lemma index_label_arrays:
  "map (\<lambda>(iter_lab, iter_sid_arr). replicate (length iter_sid_arr) iter_lab)
     (zip ks (map b ks))
   = map (\<lambda>u. replicate (length (b u)) u) ks"
  by (induction ks) simp_all

text \<open>The function up to the branch on the reference order.\<close>

lemma lab_sorted_sids_unfold:
  assumes "index_inv self"
  shows "lab_sorted_sids self ref_sid_order =
     (let sep_lab_sid_list = map (\<lambda>u. sids_with_lab (self_sids self) (self_labs self) u)
                               (np_unique (self_labs self));
          sep_lab_list = map (\<lambda>u. replicate
                                (length (sids_with_lab (self_sids self) (self_labs self) u)) u)
                           (np_unique (self_labs self))
      in case ref_sid_order of
           LNone \<Rightarrow> concat_and_check self sep_lab_sid_list sep_lab_list
         | _ \<Rightarrow>
            (case reorder_by_ref ref_sid_order sep_lab_sid_list sep_lab_list of
               Inl e \<Rightarrow> Inl e
             | Inr (sep_lab_sid_list', sep_lab_list') \<Rightarrow>
                 concat_and_check self sep_lab_sid_list' sep_lab_list'))"
  unfolding lab_sorted_sids_def Let_def
  by (simp only: index_keys[OF assms] index_buckets[OF assms] sum.case index_label_arrays)

lemma np_unique_nonempty: "xs \<noteq> [] \<Longrightarrow> np_unique xs \<noteq> []"
  using set_np_unique[of xs] by (metis set_empty)

lemma lab_sorted_sids_LNone:
  assumes "index_inv self"
  shows "\<exists>os ol. lab_sorted_sids self LNone = Inr (os, ol) \<and> length os = length ol
           \<and> mset (zip os ol) = mset (zip (self_sids self) (self_labs self))"
proof -
  let ?S = "self_sids self" and ?Lb = "self_labs self"
  let ?K = "np_unique ?Lb"
  let ?bs = "map (\<lambda>u. sids_with_lab ?S ?Lb u) ?K"
  let ?ls = "map (\<lambda>u. replicate (length (sids_with_lab ?S ?Lb u)) u) ?K"
  have k: "?K \<noteq> []" using index_inv_labs_nonempty[OF assms] by (rule np_unique_nonempty)
  have z: "zip (concat ?bs) (concat ?ls)
             = concat (map (\<lambda>u. map (\<lambda>s. (s, u)) (sids_with_lab ?S ?Lb u)) ?K)
         \<and> length (concat ?bs) = length (concat ?ls)"
    by (rule zip_concat_tagged) simp
  then have m: "mset (zip (concat ?bs) (concat ?ls)) = mset (zip ?S ?Lb)"
    by (simp only: pairs_partition)
  have "concat_and_check self ?bs ?ls = Inr (concat ?bs, concat ?ls)"
    using assms _ _ _ m
  proof (rule concat_and_check_ok)
    show "?bs \<noteq> []" using k by simp
    show "?ls \<noteq> []" using k by simp
    show "length (concat ?bs) = length (concat ?ls)" using z by blast
  qed
  then have "lab_sorted_sids self LNone = Inr (concat ?bs, concat ?ls)"
    by (simp only: lab_sorted_sids_unfold[OF assms] Let_def pylist.case)
  with z m show ?thesis by blast
qed

subsection \<open>The reordering by a reference order\<close>

lemma first_nonempty: "xs \<noteq> [] \<Longrightarrow> first xs = Inr (hd xs)"
  by (cases xs) simp_all

lemma list_index_mem:
  "x \<in> set ys \<Longrightarrow> \<exists>i. list_index ys x = Inr i \<and> i < length ys \<and> ys ! i = x"
proof (induction ys)
  case Nil
  then show ?case by simp
next
  case (Cons y ys)
  show ?case
  proof (cases "y = x")
    case True
    then show ?thesis by simp
  next
    case False
    with Cons.prems have "x \<in> set ys" by simp
    from Cons.IH[OF this] obtain i where "list_index ys x = Inr i" "i < length ys" "ys ! i = x"
      by blast
    with False show ?thesis by simp
  qed
qed

lemma map_err_list_index:
  "set xs \<subseteq> set ys \<Longrightarrow>
   \<exists>ind. map_err (list_index ys) xs = Inr ind \<and> map (\<lambda>i. ys ! i) ind = xs
         \<and> (\<forall>i\<in>set ind. i < length ys)"
proof (induction xs)
  case Nil
  show ?case by simp
next
  case (Cons x xs)
  from Cons.prems have "x \<in> set ys" by simp
  from list_index_mem[OF this] obtain i where
    i: "list_index ys x = Inr i" "i < length ys" "ys ! i = x" by blast
  from Cons.prems have "set xs \<subseteq> set ys" by simp
  from Cons.IH[OF this] obtain ind where
    ind: "map_err (list_index ys) xs = Inr ind" "map (\<lambda>i. ys ! i) ind = xs"
      "\<forall>i\<in>set ind. i < length ys" by blast
  have a: "map_err (list_index ys) (x # xs) = Inr (i # ind)" by (simp add: i(1) ind(1))
  have b: "map (\<lambda>i. ys ! i) (i # ind) = x # xs" by (simp add: i(3) ind(2))
  have c: "\<forall>j\<in>set (i # ind). j < length ys" using i(2) ind(3) by simp
  show ?case
    by (rule exI[of _ "i # ind"]) (intro conjI a b c)
qed

lemma bucket_distinct:
  assumes "distinct sids" and "length sids = length labs"
  shows "distinct (sids_with_lab sids labs u)"
proof -
  have "distinct (map fst (zip sids labs))" using assms by simp
  then show ?thesis unfolding sids_with_lab_def by (rule distinct_map_filter)
qed

lemma bucket_subset: "set (sids_with_lab sids labs u) \<subseteq> set sids"
  by (auto simp: sids_with_lab_def dest: set_zip_leftD)

lemma bucket_nonempty:
  assumes "length sids = length labs" and "u \<in> set labs"
  shows "sids_with_lab sids labs u \<noteq> []"
proof -
  from assms(2) obtain i where i: "i < length labs" "labs ! i = u"
    by (auto simp: in_set_conv_nth)
  with assms(1) have "(sids ! i, u) \<in> set (zip sids labs)"
    by (auto simp: set_zip)
  then have "(sids ! i, u) \<in> set (filter (\<lambda>(s, l). l = u) (zip sids labs))" by simp
  then have "sids ! i \<in> set (sids_with_lab sids labs u)"
    unfolding sids_with_lab_def by force
  then show ?thesis by auto
qed

lemma bucket_label:
  assumes "distinct sids" and "length sids = length labs"
    and "s \<in> set (sids_with_lab sids labs u)"
  shows "map_of (zip sids labs) s = Some u"
proof -
  from assms(3) have "(s, u) \<in> set (zip sids labs)"
    by (auto simp: sids_with_lab_def)
  moreover have "distinct (map fst (zip sids labs))" using assms(1,2) by simp
  ultimately show ?thesis by simp
qed

lemma reorder_by_ref_perm:
  assumes inv: "index_inv self"
    and valid: "check_is_valid_sfids (LList r) = Inr ()"
    and perm: "mset r = mset (self_sids self)"
  shows "\<exists>us. reorder_by_ref (LList r)
                (map (\<lambda>u. sids_with_lab (self_sids self) (self_labs self) u)
                   (np_unique (self_labs self)))
                (map (\<lambda>u. replicate
                        (length (sids_with_lab (self_sids self) (self_labs self) u)) u)
                   (np_unique (self_labs self)))
              = Inr (map (\<lambda>u. sort_flat_sids
                             (sids_with_lab (self_sids self) (self_labs self) u) r) us,
                     map (\<lambda>u. replicate
                             (length (sids_with_lab (self_sids self) (self_labs self) u)) u) us)
            \<and> mset us = mset (np_unique (self_labs self))"
proof -
  let ?S = "self_sids self" and ?Lb = "self_labs self"
  let ?K = "np_unique ?Lb"
  let ?B = "\<lambda>u. sids_with_lab ?S ?Lb u"
  let ?R = "\<lambda>u. replicate (length (?B u)) u"
  let ?B' = "\<lambda>u. sort_flat_sids (?B u) r"
  let ?m = "\<lambda>u. hd (?B' u)"
  let ?g = "\<lambda>s. the (map_of (zip ?S ?Lb) s)"
  have dS: "distinct ?S" using inv by (rule index_inv_distinct)
  have len: "length ?S = length ?Lb" using inv by (rule index_inv_length)
  have dr: "distinct r" using check_is_valid_sfids_Inr[OF valid] by simp
  have sr: "set r = set ?S" using perm by (rule mset_eq_setD)
  have msB: "mset (?B' u) = mset (?B u)" for u
    unfolding sort_flat_sids_def
    using dr bucket_distinct[OF dS len] bucket_subset[of ?S ?Lb u]
    by (intro mset_filter_mem) (simp_all add: sr)
  have setB: "set (?B' u) = set (?B u)" for u
    using msB[of u] by (rule mset_eq_setD)
  have neB: "?B' u \<noteq> []" if "u \<in> set ?K" for u
  proof -
    from that have "u \<in> set ?Lb" by (simp add: set_np_unique)
    from bucket_nonempty[OF len this] have "set (?B u) \<noteq> {}" by simp
    with setB[of u] have "set (?B' u) \<noteq> {}" by metis
    then show ?thesis by (metis set_empty)
  qed
  have mB: "?m u \<in> set (?B u)" if "u \<in> set ?K" for u
  proof -
    from neB[OF that] have "hd (?B' u) \<in> set (?B' u)" by (rule hd_in_set)
    with setB[of u] show ?thesis by metis
  qed
  have gm: "?g (?m u) = u" if "u \<in> set ?K" for u
    using bucket_label[OF dS len mB[OF that]] by simp
  have firsts: "map_err first (map ?B' ?K) = Inr (map hd (map ?B' ?K))"
  proof (rule map_err_Inr)
    fix x assume "x \<in> set (map ?B' ?K)"
    then obtain u where "u \<in> set ?K" "x = ?B' u" by auto
    with neB[of u] have "x \<noteq> []" by simp
    then show "first x = Inr (hd x)" by (rule first_nonempty)
  qed
  have mins: "map hd (map ?B' ?K) = map ?m ?K" by simp
  have inj: "inj_on ?m (set ?K)"
    by (rule inj_on_inverseI[where g = ?g]) (rule gm)
  have dmins: "distinct (map ?m ?K)"
    using distinct_np_unique[of ?Lb] inj by (simp add: distinct_map)
  have submins: "set (map ?m ?K) \<subseteq> set r"
  proof
    fix s assume "s \<in> set (map ?m ?K)"
    then obtain u where u: "u \<in> set ?K" "s = ?m u" by auto
    from mB[OF u(1)] bucket_subset[of ?S ?Lb u] have "?m u \<in> set ?S" by blast
    with u(2) show "s \<in> set r" by (simp add: sr)
  qed
  have msorted: "mset (sort_flat_sids (map ?m ?K) r) = mset (map ?m ?K)"
    using mset_filter_mem[OF dr dmins submins]
    by (simp only: sort_flat_sids_def[of "map ?m ?K" r])
  then have "set (sort_flat_sids (map ?m ?K) r) = set (map ?m ?K)" by (rule mset_eq_setD)
  then have "set (sort_flat_sids (map ?m ?K) r) \<subseteq> set (map ?m ?K)" by simp
  from map_err_list_index[OF this] obtain ind where
    ind: "map_err (list_index (map ?m ?K)) (sort_flat_sids (map ?m ?K) r) = Inr ind"
    and nth_ind: "map (\<lambda>i. map ?m ?K ! i) ind = sort_flat_sids (map ?m ?K) r"
    and bound: "\<forall>i\<in>set ind. i < length (map ?m ?K)"
    by blast
  let ?us = "map (\<lambda>i. ?K ! i) ind"
  have b: "\<And>i. i \<in> set ind \<Longrightarrow> i < length ?K" using bound by simp
  have pick: "map (\<lambda>i. map f ?K ! i) ind = map f ?us" for f :: "pyval \<Rightarrow> 'b"
    using b by (simp add: comp_def)
  have sub_us: "set ?us \<subseteq> set ?K" using b by auto
  have "map ?m ?us = sort_flat_sids (map ?m ?K) r"
    using nth_ind by (simp only: pick)
  with msorted have "mset (map ?m ?us) = mset (map ?m ?K)" by simp
  with _ have perm_us: "mset ?us = mset ?K"
  proof (rule mset_eq_left_inverse)
    fix u assume "u \<in> set ?us \<union> set ?K"
    with sub_us have "u \<in> set ?K" by blast
    then show "?g (?m u) = u" by (rule gm)
  qed
  have "reorder_by_ref (LList r) (map ?B ?K) (map ?R ?K) = Inr (map ?B' ?us, map ?R ?us)"
    unfolding reorder_by_ref_def Let_def
    by (simp only: valid sum.case the_list.simps map_map comp_def firsts[unfolded map_map comp_def]
        ind[unfolded map_map comp_def] pick[unfolded map_map comp_def]
        pick[of ?B', unfolded map_map comp_def] pick[of ?R, unfolded map_map comp_def])
  with perm_us show ?thesis by blast
qed

lemma lab_sorted_sids_ref:
  assumes inv: "index_inv self"
    and valid: "check_is_valid_sfids (LList r) = Inr ()"
    and perm: "mset r = mset (self_sids self)"
  shows "\<exists>os ol. lab_sorted_sids self (LList r) = Inr (os, ol) \<and> length os = length ol
           \<and> mset (zip os ol) = mset (zip (self_sids self) (self_labs self))"
proof -
  let ?S = "self_sids self" and ?Lb = "self_labs self"
  let ?K = "np_unique ?Lb"
  let ?B = "\<lambda>u. sids_with_lab ?S ?Lb u"
  let ?R = "\<lambda>u. replicate (length (?B u)) u"
  let ?B' = "\<lambda>u. sort_flat_sids (?B u) r"
  have dS: "distinct ?S" using inv by (rule index_inv_distinct)
  have len: "length ?S = length ?Lb" using inv by (rule index_inv_length)
  have dr: "distinct r" using check_is_valid_sfids_Inr[OF valid] by simp
  have sr: "set r = set ?S" using perm by (rule mset_eq_setD)
  have msB: "mset (?B' u) = mset (?B u)" for u
    unfolding sort_flat_sids_def
    using dr bucket_distinct[OF dS len] bucket_subset[of ?S ?Lb u]
    by (intro mset_filter_mem) (simp_all add: sr)
  from reorder_by_ref_perm[OF inv valid perm] obtain us where
    re: "reorder_by_ref (LList r) (map ?B ?K) (map ?R ?K) = Inr (map ?B' us, map ?R us)"
    and pu: "mset us = mset ?K"
    by blast
  let ?bs = "map ?B' us" and ?ls = "map ?R us"
  have k: "?K \<noteq> []" using index_inv_labs_nonempty[OF inv] by (rule np_unique_nonempty)
  have "mset us \<noteq> {#}" using k by (simp add: pu)
  then have une: "us \<noteq> []" by auto
  have z: "zip (concat ?bs) (concat ?ls) = concat (map (\<lambda>u. map (\<lambda>s. (s, u)) (?B' u)) us)
         \<and> length (concat ?bs) = length (concat ?ls)"
  proof (rule zip_concat_tagged)
    fix u
    show "length (?B' u) = length (?B u)" using msB[of u] by (rule mset_eq_length)
  qed
  have "mset (concat (map (\<lambda>u. map (\<lambda>s. (s, u)) (?B' u)) us))
        = mset (concat (map (\<lambda>u. map (\<lambda>s. (s, u)) (?B u)) ?K))"
    using pu msB by (rule mset_tagged_cong)
  with z have m: "mset (zip (concat ?bs) (concat ?ls)) = mset (zip ?S ?Lb)"
    by (simp only: pairs_partition)
  have "concat_and_check self ?bs ?ls = Inr (concat ?bs, concat ?ls)"
    using inv _ _ _ m
  proof (rule concat_and_check_ok)
    show "?bs \<noteq> []" using une by simp
    show "?ls \<noteq> []" using une by simp
    show "length (concat ?bs) = length (concat ?ls)" using z by blast
  qed
  then have "lab_sorted_sids self (LList r) = Inr (concat ?bs, concat ?ls)"
    by (simp only: lab_sorted_sids_unfold[OF inv] Let_def pylist.case re sum.case prod.case)
  with z m show ?thesis by blast
qed

text \<open>
  C2. For every constructed index, a call of \<^verbatim>\<open>lab_sorted_sids\<close> without a reference
  order, or with a reference order that passes the id validator and is a permutation of
  the sample ids, returns: none of the three assertions (nor any other step) fails. The
  returned sample ids are a permutation of the sample ids of the index, the returned
  labels a permutation of its labels, and the (sample id, label) pairs of the result,
  sorted by sample id, are the pairs of the index sorted by sample id.
\<close>

theorem lab_sorted_sids_postconditions:
  assumes "SingleLabelClassifiedSamples_init pd x labs sids fids d metric nprocs = Inr self"
    and "ref_sid_order = LNone
         \<or> (\<exists>r. ref_sid_order = LList r \<and> check_is_valid_sfids ref_sid_order = Inr ()
                \<and> mset r = mset (self_sids self))"
  shows "\<exists>os ol. lab_sorted_sids self ref_sid_order = Inr (os, ol)
           \<and> length os = length ol
           \<and> mset os = mset (self_sids self)
           \<and> mset ol = mset (self_labs self)
           \<and> sort_key fst (zip os ol) = sort_key fst (zip (self_sids self) (self_labs self))"
proof -
  have inv: "index_inv self" using assms(1) by (rule SingleLabelClassifiedSamples_init_inv)
  have "\<exists>os ol. lab_sorted_sids self ref_sid_order = Inr (os, ol) \<and> length os = length ol
           \<and> mset (zip os ol) = mset (zip (self_sids self) (self_labs self))"
    using assms(2)
  proof
    assume "ref_sid_order = LNone"
    with lab_sorted_sids_LNone[OF inv] show ?thesis by simp
  next
    assume "\<exists>r. ref_sid_order = LList r \<and> check_is_valid_sfids ref_sid_order = Inr ()
                \<and> mset r = mset (self_sids self)"
    then obtain r where r: "ref_sid_order = LList r"
      and v: "check_is_valid_sfids (LList r) = Inr ()" and p: "mset r = mset (self_sids self)"
      by blast
    from lab_sorted_sids_ref[OF inv v p] show ?thesis by (simp only: r)
  qed
  then obtain os ol where res: "lab_sorted_sids self ref_sid_order = Inr (os, ol)"
    and l: "length os = length ol"
    and m: "mset (zip os ol) = mset (zip (self_sids self) (self_labs self))"
    by blast
  note p = pairs_postconditions[OF l index_inv_length[OF inv] index_inv_distinct[OF inv] m]
  from res l p(1) p(2) p(3) show ?thesis by blast
qed

theorem lab_sorted_sids_postconditions_witness:
  "SingleLabelClassifiedSamples_init pd_zero (Conv (NdArray2 3 1 [[1], [2], [3]]))
     (LList [StrV ''a'', StrV ''b'', StrV ''a''])
     (LList [StrV ''s1'', StrV ''s2'', StrV ''s3'']) LNone CNone None CNone = Inr example_index
   \<and> check_is_valid_sfids (LList [StrV ''s3'', StrV ''s2'', StrV ''s1'']) = Inr ()
   \<and> mset [StrV ''s3'', StrV ''s2'', StrV ''s1''] = mset (self_sids example_index)
   \<and> (\<exists>os ol. lab_sorted_sids example_index (LList [StrV ''s3'', StrV ''s2'', StrV ''s1''])
                 = Inr (os, ol)
          \<and> mset os = mset (self_sids example_index)
          \<and> mset ol = mset (self_labs example_index))"
proof -
  have v: "check_is_valid_sfids (LList [StrV ''s3'', StrV ''s2'', StrV ''s1'']) = Inr ()"
    by (simp add: check_is_valid_sfids_def is_valid_sfid_def is_uniq_np1darr_def)
  have p: "mset [StrV ''s3'', StrV ''s2'', StrV ''s1''] = mset (self_sids example_index)"
    by (simp add: example_index_def)
  have h: "LList [StrV ''s3'', StrV ''s2'', StrV ''s1''] = LNone
         \<or> (\<exists>r. LList [StrV ''s3'', StrV ''s2'', StrV ''s1''] = LList r
               \<and> check_is_valid_sfids (LList [StrV ''s3'', StrV ''s2'', StrV ''s1'']) = Inr ()
               \<and> mset r = mset (self_sids example_index))"
    using v p by blast
  from lab_sorted_sids_postconditions[OF SingleLabelClassifiedSamples_init_example h]
  have "\<exists>os ol. lab_sorted_sids example_index (LList [StrV ''s3'', StrV ''s2'', StrV ''s1''])
                 = Inr (os, ol)
          \<and> mset os = mset (self_sids example_index)
          \<and> mset ol = mset (self_labs example_index)"
    by blast
  with SingleLabelClassifiedSamples_init_example v p show ?thesis by blast
qed

end
